theory Spec2Isabelle
  imports Main "HOL-Library.AList" "HOL-Library.Multiset"
begin

section \<open>Data model\<close>

text \<open>
  The pipeline of \<^verbatim>\<open>utils.py\<close> and \<^verbatim>\<open>main.py\<close> talks to five outside
  capabilities: Trakt (identifier resolution), Torrentio (discovery), Real-Debrid
  (availability, magnet submission, file selection), Overseerr (acknowledgement) and the
  RTN ranking library. None of them is code of the repository, so each is a field of an
  environment record \<open>env\<close>: a function from the request the code sends to the answer it
  gets. Every function of the model returns, next to its result, the list of outside
  calls it made, in order.

  Python exceptions are values of \<open>py_error\<close>; a function that can raise returns
  \<open>py_error + 'a\<close> with \<open>Inl\<close> for the exception.
\<close>

datatype py_error =
    RequestException | TypeError | KeyError | AttributeError | ValueError
  | JSONDecodeError | ValidationError

text \<open>\<^verbatim>\<open>session.get\<close>/\<^verbatim>\<open>session.post\<close>: either the transport raises
  \<^verbatim>\<open>requests.exceptions.RequestException\<close>, or a response with a status code and a
  JSON body comes back.\<close>

datatype 'a http = ConnError | Resp nat 'a

text \<open>The file index handed to the commit stage is whatever Python value the caller
  passes: an integer from the discovery JSON, or the string literal of the poll path.\<close>

datatype py_val = PyInt int | PyStr string

text \<open>One entry of Trakt's search result. \<open>show_imdb e\<close> is
  \<^verbatim>\<open>e['show']['ids']['imdb']\<close>: \<open>None\<close> when a key on that path is missing (Python
  raises KeyError), \<open>Some v\<close> with \<open>v\<close> the JSON value (a string or null) otherwise.\<close>

record trakt_entry =
  show_imdb :: "string option option"
  movie_imdb :: "string option option"

datatype trakt_body = TraktList "trakt_entry list" | TraktOther

text \<open>A stream descriptor of Torrentio; each field is \<^verbatim>\<open>stream.get(...)\<close>.\<close>

record stream =
  infoHash :: "string option"
  title :: "string option"
  fileIdx :: "py_val option"

text \<open>A JSON value as \<^verbatim>\<open>response.json()\<close> returns it: \<open>JObj\<close> holds the pairs of the
  parsed dict in insertion order (its keys are distinct), \<open>JNum\<close> a number (only whether
  it is zero matters below).\<close>

datatype json =
    JNull | JBool bool | JNum int | JStr string
  | JList "json list" | JObj "(string \<times> json) list"

text \<open>One file of an availability record, \<^verbatim>\<open>{"filename": ..., "filesize": ...}\<close>, with
  the two values as the service sent them; a record maps file positions to files.\<close>

record file_info =
  filename :: json
  filesize :: json

type_synonym availability_record = "(int \<times> file_info) list"

text \<open>A file of a submitted torrent as listed by \<^verbatim>\<open>/torrents/info\<close>.\<close>

record rd_file =
  file_id :: int
  path :: "string option"

text \<open>The answer of the ranking library: the garbage exception, or a ranked torrent's
  accept flag, score and parsed title.\<close>

datatype rank_result = GarbageTorrent | Scored bool int string

record torrent =
  infohash :: string
  parsed_title :: string
  fetch :: bool
  rank :: int

datatype call =
    TraktSearch int string
  | TorrentioQuery string string
  | InstantAvailability "string list"
  | RtnRank string string
  | AddMagnet string string
  | TorrentInfo string
  | SelectFiles string "int list"
  | MarkAvailable int

record env =
  trakt :: "int \<Rightarrow> string \<Rightarrow> nat \<Rightarrow> trakt_body http"
  torrentio :: "string \<Rightarrow> string \<Rightarrow> nat \<Rightarrow> stream list option http"
  rd_instant :: "string list \<Rightarrow> json option http"
  rtn :: "string \<Rightarrow> string \<Rightarrow> rank_result"
  rd_add :: "string \<Rightarrow> string \<Rightarrow> string option http"
  rd_info :: "string \<Rightarrow> rd_file list option http"
  rd_select :: "string \<Rightarrow> int list \<Rightarrow> unit http"
  guess_type :: "string \<Rightarrow> string option"
  py_int :: "string \<Rightarrow> int option"
  overseerr_mark :: "int \<Rightarrow> unit http"

text \<open>Truthiness of an optional string (\<^verbatim>\<open>if info_hash and title\<close>).\<close>

definition truthy :: "string option \<Rightarrow> bool" where
  "truthy v = (case v of None \<Rightarrow> False | Some s \<Rightarrow> s \<noteq> [])"

section \<open>Identifier resolution: \<^verbatim>\<open>get_imdb_id_from_trakt\<close>\<close>

definition trakt_type :: "string \<Rightarrow> string" where
  "trakt_type media_type = (if media_type = ''tv'' then ''show'' else ''movie'')"

text \<open>The body of \<^verbatim>\<open>for attempt in range(5)\<close>, as recursion over the attempts left.
  Falling off the loop returns \<open>None\<close>.\<close>

fun trakt_attempts ::
  "env \<Rightarrow> int \<Rightarrow> string \<Rightarrow> nat list \<Rightarrow> call list \<times> (py_error + string option)" where
  "trakt_attempts env tmdb_id media_type [] = ([], Inr None)"
| "trakt_attempts env tmdb_id media_type (attempt # rest) =
     (case trakt env tmdb_id (trakt_type media_type) attempt of
        Resp st data \<Rightarrow>
          ([TraktSearch tmdb_id (trakt_type media_type)],
           if st = 200 then
             (case data of
                TraktList (e # es) \<Rightarrow>
                  (case (if media_type = ''tv'' then show_imdb e else movie_imdb e) of
                     Some imdb \<Rightarrow> Inr imdb
                   | None \<Rightarrow> Inl KeyError)
              | _ \<Rightarrow> Inr None)
           else Inr None)
      | ConnError \<Rightarrow>
          if attempt = 4 then ([TraktSearch tmdb_id (trakt_type media_type)], Inr None)
          else (case trakt_attempts env tmdb_id media_type rest of
                  (c, r) \<Rightarrow> (TraktSearch tmdb_id (trakt_type media_type) # c, r)))"

definition get_imdb_id_from_trakt ::
  "env \<Rightarrow> int \<Rightarrow> string \<Rightarrow> call list \<times> (py_error + string option)" where
  "get_imdb_id_from_trakt env tmdb_id media_type =
     trakt_attempts env tmdb_id media_type [0..<5]"

section \<open>Discovery: \<^verbatim>\<open>query_torrentio\<close>\<close>

definition torrentio_kind :: "string \<Rightarrow> string" where
  "torrentio_kind media_type = (if media_type = ''tv'' then ''series'' else ''movie'')"

fun torrentio_attempts ::
  "env \<Rightarrow> string \<Rightarrow> string \<Rightarrow> nat list \<Rightarrow> call list \<times> stream list option option" where
  "torrentio_attempts env imdb_id media_type [] = ([], None)"
| "torrentio_attempts env imdb_id media_type (attempt # rest) =
     (case torrentio env imdb_id (torrentio_kind media_type) attempt of
        Resp st data \<Rightarrow>
          ([TorrentioQuery imdb_id (torrentio_kind media_type)],
           if st = 200 then Some data else None)
      | ConnError \<Rightarrow>
          if attempt = 4 then ([TorrentioQuery imdb_id (torrentio_kind media_type)], None)
          else (case torrentio_attempts env imdb_id media_type rest of
                  (c, r) \<Rightarrow> (TorrentioQuery imdb_id (torrentio_kind media_type) # c, r)))"

text \<open>The result is \<open>None\<close> for Python's \<open>None\<close>, and \<open>Some streams\<close> for a JSON object
  whose \<^verbatim>\<open>.get('streams')\<close> is \<open>streams\<close>.\<close>

definition query_torrentio ::
  "env \<Rightarrow> string \<Rightarrow> string \<Rightarrow> call list \<times> stream list option option" where
  "query_torrentio env imdb_id media_type =
     torrentio_attempts env imdb_id media_type [0..<5]"

section \<open>Availability: \<^verbatim>\<open>get_instant_availability\<close>, \<^verbatim>\<open>check_rd_availability\<close>\<close>

text \<open>A Python dict is an association list in insertion order; assignment to a key is
  \<open>AList.update\<close>, which overwrites in place or appends.\<close>

definition empty_records :: "string list \<Rightarrow> (string \<times> availability_record) list" where
  "empty_records hashes = fold (\<lambda>h results. AList.update h [] results) hashes []"

text \<open>The Python operations that the normalisation applies to JSON values, each with
  the exception it raises on a value of the wrong kind: truthiness, \<^verbatim>\<open>"rd" in values\<close>
  (key of a dict, element of a list, substring of a string), \<^verbatim>\<open>v[key]\<close> for a string
  key, iteration, and \<^verbatim>\<open>.items()\<close>.\<close>

definition py_truthy :: "json \<Rightarrow> bool" where
  "py_truthy v =
     (case v of
        JNull \<Rightarrow> False | JBool b \<Rightarrow> b | JNum n \<Rightarrow> n \<noteq> 0 | JStr s \<Rightarrow> s \<noteq> []
      | JList xs \<Rightarrow> xs \<noteq> [] | JObj kvs \<Rightarrow> kvs \<noteq> [])"

fun has_rd :: "string \<Rightarrow> bool" where
  "has_rd [] = False"
| "has_rd (c # cs) = (take 2 (c # cs) = ''rd'' \<or> has_rd cs)"

definition rd_in :: "json \<Rightarrow> py_error + bool" where
  "rd_in values =
     (case values of
        JObj kvs \<Rightarrow> Inr (map_of kvs ''rd'' \<noteq> None)
      | JList xs \<Rightarrow> Inr (JStr ''rd'' \<in> set xs)
      | JStr s \<Rightarrow> Inr (has_rd s)
      | _ \<Rightarrow> Inl TypeError)"

definition subscript :: "json \<Rightarrow> string \<Rightarrow> py_error + json" where
  "subscript v key =
     (case v of
        JObj kvs \<Rightarrow> (case map_of kvs key of Some x \<Rightarrow> Inr x | None \<Rightarrow> Inl KeyError)
      | _ \<Rightarrow> Inl TypeError)"

definition py_iter :: "json \<Rightarrow> py_error + json list" where
  "py_iter v =
     (case v of
        JList xs \<Rightarrow> Inr xs
      | JObj kvs \<Rightarrow> Inr (map (\<lambda>kv. JStr (fst kv)) kvs)
      | JStr s \<Rightarrow> Inr (map (\<lambda>c. JStr [c]) s)
      | _ \<Rightarrow> Inl TypeError)"

definition py_items :: "json \<Rightarrow> py_error + (string \<times> json) list" where
  "py_items v = (case v of JObj kvs \<Rightarrow> Inr kvs | _ \<Rightarrow> Inl AttributeError)"

text \<open>Lines 304 and 305, the dict comprehension: for each container of
  \<^verbatim>\<open>values["rd"]\<close> and each of its items, \<^verbatim>\<open>int(k)\<close> (the builtin is the
  parameter \<open>py_int\<close>, \<open>None\<close> for ValueError), then the two subscripts. The first
  exception ends it.\<close>

fun add_items ::
  "env \<Rightarrow> (string \<times> json) list \<Rightarrow> availability_record \<Rightarrow> py_error + availability_record" where
  "add_items env [] result = Inr result"
| "add_items env ((k, v) # kvs) result =
     (case py_int env k of
        None \<Rightarrow> Inl ValueError
      | Some n \<Rightarrow>
          (case subscript v ''filename'' of
             Inl e \<Rightarrow> Inl e
           | Inr f \<Rightarrow>
               (case subscript v ''filesize'' of
                  Inl e \<Rightarrow> Inl e
                | Inr z \<Rightarrow>
                    add_items env kvs
                      (AList.update n \<lparr>filename = f, filesize = z\<rparr> result))))"

fun add_containers ::
  "env \<Rightarrow> json list \<Rightarrow> availability_record \<Rightarrow> py_error + availability_record" where
  "add_containers env [] result = Inr result"
| "add_containers env (container # cs) result =
     (case py_items container of
        Inl e \<Rightarrow> Inl e
      | Inr kvs \<Rightarrow>
          (case add_items env kvs result of
             Inl e \<Rightarrow> Inl e
           | Inr result' \<Rightarrow> add_containers env cs result'))"

text \<open>Lines 303 to 308, the record of one hash:
  \<^verbatim>\<open>if "rd" in values and values["rd"]\<close>, then the comprehension, else \<open>{}\<close>.\<close>

definition rd_record :: "env \<Rightarrow> json \<Rightarrow> py_error + availability_record" where
  "rd_record env values =
     (case rd_in values of
        Inl e \<Rightarrow> Inl e
      | Inr False \<Rightarrow> Inr []
      | Inr True \<Rightarrow>
          (case subscript values ''rd'' of
             Inl e \<Rightarrow> Inl e
           | Inr rd \<Rightarrow>
               if py_truthy rd then
                 (case py_iter rd of
                    Inl e \<Rightarrow> Inl e
                  | Inr containers \<Rightarrow> add_containers env containers [])
               else Inr []))"

text \<open>Lines 301 to 309: the loop over \<^verbatim>\<open>data.items()\<close>.\<close>

fun normalised ::
  "env \<Rightarrow> (string \<times> json) list \<Rightarrow> (string \<times> availability_record) list \<Rightarrow>
   py_error + (string \<times> availability_record) list" where
  "normalised env [] results = Inr results"
| "normalised env ((h, values) # rest) results =
     (case rd_record env values of
        Inl e \<Rightarrow> Inl e
      | Inr r \<Rightarrow> normalised env rest (AList.update h r results))"

text \<open>The body of a response is \<open>None\<close> when it is not JSON, so that
  \<^verbatim>\<open>response.json()\<close> raises.\<close>

definition get_instant_availability ::
  "env \<Rightarrow> string list \<Rightarrow> call list \<times> (py_error + (string \<times> availability_record) list)" where
  "get_instant_availability env hashes =
     ([InstantAvailability hashes],
      case rd_instant env hashes of
        ConnError \<Rightarrow> Inl RequestException
      | Resp st body \<Rightarrow>
          if st \<noteq> 200 then Inr (empty_records hashes)
          else (case body of
                  None \<Rightarrow> Inl JSONDecodeError
                | Some data \<Rightarrow>
                    (case data of
                       JList xs \<Rightarrow> Inr (empty_records hashes)
                     | _ \<Rightarrow>
                         (case py_items data of
                            Inl e \<Rightarrow> Inl e
                          | Inr items \<Rightarrow> normalised env items []))))"

definition check_rd_availability ::
  "env \<Rightarrow> string \<Rightarrow> call list \<times> (py_error + availability_record option)" where
  "check_rd_availability env info_hash =
     (case get_instant_availability env [info_hash] of
        (c, Inl e) \<Rightarrow> (c, Inl e)
      | (c, Inr availability) \<Rightarrow>
          (c, Inr (case map_of availability info_hash of
                     Some r \<Rightarrow> if r \<noteq> [] then Some r else None
                   | None \<Rightarrow> None)))"

section \<open>Commit: \<^verbatim>\<open>select_files_in_rd\<close>, \<^verbatim>\<open>add_torrent_and_select_files\<close>\<close>

text \<open>\<^verbatim>\<open>mimetypes.guess_type(file.get('path', ''))[0]\<close> is truthy and starts with
  \<^verbatim>\<open>video\<close>.\<close>

definition playable :: "env \<Rightarrow> rd_file \<Rightarrow> bool" where
  "playable env f =
     (case guess_type env (case path f of None \<Rightarrow> [] | Some p \<Rightarrow> p) of
        None \<Rightarrow> False
      | Some m \<Rightarrow> m \<noteq> [] \<and> take 5 m = ''video'')"

text \<open>Lines 405 to 427: the file set to select. \<open>Inr None\<close> stands for the early
  \<^verbatim>\<open>return False\<close>; comparing a string with an integer raises TypeError. The
  \<^verbatim>\<open>files\<close> form field is kept as the list of file ids that the source joins with
  commas.\<close>

definition chosen_files :: "env \<Rightarrow> rd_file list \<Rightarrow> py_val \<Rightarrow> string \<Rightarrow> py_error + int list option" where
  "chosen_files env files file_idx media_type =
     (case file_idx of
        PyStr s \<Rightarrow> Inl TypeError
      | PyInt i \<Rightarrow>
          if i < 0 \<or> i \<ge> int (length files) then Inr None
          else if media_type = ''movie'' then Inr (Some [file_id (files ! nat i)])
          else if media_type = ''tv'' then
            (let playable_files = map file_id (filter (playable env) files)
             in if playable_files = [] then Inr None else Inr (Some playable_files))
          else Inr None)"

text \<open>\<^verbatim>\<open>files_data.get('files', [])\<close>.\<close>

definition files_of :: "rd_file list option \<Rightarrow> rd_file list" where
  "files_of files_data = (case files_data of None \<Rightarrow> [] | Some fs \<Rightarrow> fs)"

definition select_files_in_rd ::
  "env \<Rightarrow> string \<Rightarrow> py_val \<Rightarrow> string \<Rightarrow> call list \<times> (py_error + bool)" where
  "select_files_in_rd env torrent_id file_idx media_type =
     (case rd_info env torrent_id of
        ConnError \<Rightarrow> ([TorrentInfo torrent_id], Inl RequestException)
      | Resp st files_data \<Rightarrow>
          if st \<noteq> 200 then ([TorrentInfo torrent_id], Inr False)
          else
            (case chosen_files env (files_of files_data) file_idx media_type of
               Inl e \<Rightarrow> ([TorrentInfo torrent_id], Inl e)
             | Inr None \<Rightarrow> ([TorrentInfo torrent_id], Inr False)
             | Inr (Some sel) \<Rightarrow>
                 ([TorrentInfo torrent_id, SelectFiles torrent_id sel],
                  case rd_select env torrent_id sel of
                    ConnError \<Rightarrow> Inl RequestException
                  | Resp st' u \<Rightarrow> Inr (st' = 204))))"

record commit_result =
  success :: bool
  message :: string
  torrent_id :: "string option"

definition add_torrent_and_select_files ::
  "env \<Rightarrow> string \<Rightarrow> string \<Rightarrow> py_val \<Rightarrow> string \<Rightarrow>
   call list \<times> (py_error + commit_result option)" where
  "add_torrent_and_select_files env info_hash torrent_name file_idx media_type =
     (case rd_add env info_hash torrent_name of
        ConnError \<Rightarrow> ([AddMagnet info_hash torrent_name], Inl RequestException)
      | Resp st rd_id \<Rightarrow>
          if st = 201 then
            (if truthy rd_id then
               (case select_files_in_rd env (the rd_id) file_idx media_type of
                  (c, Inl e) \<Rightarrow> (AddMagnet info_hash torrent_name # c, Inl e)
                | (c, Inr ok) \<Rightarrow>
                    (AddMagnet info_hash torrent_name # c,
                     if ok
                     then Inr (Some \<lparr>success = True,
                                     message = ''Torrent added and files selected.'',
                                     torrent_id = rd_id\<rparr>)
                     else Inr (Some \<lparr>success = False,
                                     message = ''Failed to select files in the torrent.'',
                                     torrent_id = None\<rparr>)))
             else ([AddMagnet info_hash torrent_name],
                   Inr (Some \<lparr>success = False,
                              message = ''Torrent added, but torrent ID not found.'',
                              torrent_id = None\<rparr>)))
          else ([AddMagnet info_hash torrent_name], Inr None))"

section \<open>Acknowledgement: \<^verbatim>\<open>mark_completed\<close>\<close>

definition mark_completed :: "env \<Rightarrow> int \<Rightarrow> call list \<times> bool" where
  "mark_completed env media_id =
     ([MarkAvailable media_id],
      case overseerr_mark env media_id of ConnError \<Rightarrow> False | Resp st u \<Rightarrow> st = 200)"

section \<open>Poll path: \<^verbatim>\<open>process_overseerr_request\<close>\<close>

record overseerr_request =
  media_id :: int
  tmdbId :: int
  mediaType :: string

text \<open>The three local variables of the ranking loop. \<open>checked_hashes\<close> is a Python set
  that only ever grows by elements it does not contain yet; it is kept as the list of
  its elements in insertion order, so that its \<^verbatim>\<open>len\<close> is the length of the list.\<close>

record loop_state =
  ranked_torrents :: "torrent list"
  checked_hashes :: "string list"
  garbage_count :: nat

definition init_state :: loop_state where
  "init_state = \<lparr>ranked_torrents = [], checked_hashes = [], garbage_count = 0\<rparr>"

definition max_hashes_to_check :: nat where
  "max_hashes_to_check = 5"

text \<open>\<^verbatim>\<open>if rd_availability:\<close> holds for a non-empty dict only.\<close>

definition available :: "availability_record option \<Rightarrow> bool" where
  "available rd_availability = (case rd_availability of None \<Rightarrow> False | Some r \<Rightarrow> r \<noteq> [])"

text \<open>\<^verbatim>\<open>rtn.rank(title, info_hash)\<close>: \<open>None\<close> when the library raises GarbageTorrent,
  otherwise the torrent it builds, which carries the hash it was given.\<close>

definition rtn_rank :: "env \<Rightarrow> string \<Rightarrow> string \<Rightarrow> torrent option" where
  "rtn_rank env t info_hash =
     (case rtn env t info_hash of
        GarbageTorrent \<Rightarrow> None
      | Scored f r p \<Rightarrow> Some \<lparr>infohash = info_hash, parsed_title = p, fetch = f, rank = r\<rparr>)"

text \<open>Lines 134 to 137: the state, and whether the loop breaks.\<close>

definition stop_check :: "loop_state \<Rightarrow> loop_state \<times> bool" where
  "stop_check st =
     (st, length (checked_hashes st) \<ge> max_hashes_to_check
          \<and> garbage_count st = max_hashes_to_check)"

text \<open>Lines 115 to 137: one iteration of the loop over the streams.\<close>

definition check_stream ::
  "env \<Rightarrow> stream \<Rightarrow> loop_state \<Rightarrow> call list \<times> (py_error + loop_state \<times> bool)" where
  "check_stream env s st =
     (if truthy (infoHash s) \<and> truthy (title s)
         \<and> the (infoHash s) \<notin> set (checked_hashes st) then
        (let info_hash = the (infoHash s);
             st1 = st\<lparr>checked_hashes := checked_hashes st @ [info_hash]\<rparr>
         in case check_rd_availability env info_hash of
              (c, Inl e) \<Rightarrow> (c, Inl e)
            | (c, Inr rd_availability) \<Rightarrow>
                if available rd_availability then
                  (c @ [RtnRank (the (title s)) info_hash],
                   Inr (stop_check
                     (case rtn_rank env (the (title s)) info_hash of
                        Some t \<Rightarrow>
                          if fetch t
                          then st1\<lparr>ranked_torrents := ranked_torrents st1 @ [t]\<rparr>
                          else st1\<lparr>garbage_count := garbage_count st1 + 1\<rparr>
                      | None \<Rightarrow> st1\<lparr>garbage_count := garbage_count st1 + 1\<rparr>)))
                else (c, Inr (stop_check st1)))
      else ([], Inr (st, False)))"

fun rank_loop ::
  "env \<Rightarrow> stream list \<Rightarrow> loop_state \<Rightarrow> call list \<times> (py_error + loop_state)" where
  "rank_loop env [] st = ([], Inr st)"
| "rank_loop env (s # ss) st =
     (case check_stream env s st of
        (c, Inl e) \<Rightarrow> (c, Inl e)
      | (c, Inr (st', stop)) \<Rightarrow>
          if stop then (c, Inr st')
          else (case rank_loop env ss st' of (c', r) \<Rightarrow> (c @ c', r)))"

text \<open>\<^verbatim>\<open>sorted(ranked_torrents, key=lambda x: x.rank, reverse=True)\<close>: Python's sort is
  stable also under \<^verbatim>\<open>reverse=True\<close>, so it is the stable ascending sort on the
  negated rank.\<close>

definition sorted_torrents :: "torrent list \<Rightarrow> torrent list" where
  "sorted_torrents ranked = sort_key (\<lambda>x. - rank x) ranked"

definition top_torrents :: "torrent list \<Rightarrow> torrent list" where
  "top_torrents ranked = take 5 (sorted_torrents ranked)"

text \<open>What the function logs before it returns: it has no return value of its own.\<close>

datatype poll_outcome =
    ImdbNotFound | NoTorrentsFound | NoValidTorrents
  | Completed bool | AddFailed | Errored py_error

text \<open>\<^verbatim>\<open>not torrentio_results or not torrentio_results.get('streams')\<close> is the
  emptiness of this list.\<close>

definition found_streams :: "stream list option option \<Rightarrow> stream list" where
  "found_streams torrentio_results =
     (case torrentio_results of Some (Some streams) \<Rightarrow> streams | _ \<Rightarrow> [])"

text \<open>Lines 139 to 159. A \<open>None\<close> result of the commit makes \<^verbatim>\<open>result.get\<close> raise
  AttributeError.\<close>

definition commit_best :: "env \<Rightarrow> overseerr_request \<Rightarrow> torrent list \<Rightarrow> call list \<times> poll_outcome" where
  "commit_best env request ranked =
     (case top_torrents ranked of
        [] \<Rightarrow> ([], NoValidTorrents)
      | best_torrent # rest \<Rightarrow>
          (case add_torrent_and_select_files env (infohash best_torrent)
                  (parsed_title best_torrent) (PyStr ''1'') (mediaType request) of
             (c, Inl e) \<Rightarrow> (c, Errored e)
           | (c, Inr None) \<Rightarrow> (c, Errored AttributeError)
           | (c, Inr (Some result)) \<Rightarrow>
               if success result
               then (case mark_completed env (media_id request) of
                       (c', b) \<Rightarrow> (c @ c', Completed b))
               else (c, AddFailed)))"

definition process_overseerr_request ::
  "env \<Rightarrow> overseerr_request \<Rightarrow> call list \<times> poll_outcome" where
  "process_overseerr_request env request =
     (case get_imdb_id_from_trakt env (tmdbId request) (mediaType request) of
        (c1, Inl e) \<Rightarrow> (c1, Errored e)
      | (c1, Inr imdb_id) \<Rightarrow>
          if \<not> truthy imdb_id then (c1, ImdbNotFound)
          else
            (case query_torrentio env (the imdb_id) (mediaType request) of
               (c2, torrentio_results) \<Rightarrow>
                 if found_streams torrentio_results = [] then (c1 @ c2, NoTorrentsFound)
                 else
                   (case rank_loop env (found_streams torrentio_results) init_state of
                      (c3, Inl e) \<Rightarrow> (c1 @ c2 @ c3, Errored e)
                    | (c3, Inr st) \<Rightarrow>
                        (case commit_best env request (ranked_torrents st) of
                           (c4, out) \<Rightarrow> (c1 @ c2 @ c3 @ c4, out)))))"

section \<open>Push path: \<^verbatim>\<open>jellyseer_webhook\<close>\<close>

text \<open>The payload after \<^verbatim>\<open>request.json()\<close>: its subject, and the media object that
  \<^verbatim>\<open>OverseerrWebhook.model_validate\<close> yields (\<open>None\<close> when validation raises).\<close>

record webhook_media =
  wh_tmdbId :: int
  wh_media_type :: string

record webhook_payload =
  subject :: "string option"
  validated :: "webhook_media option"

text \<open>\<open>Reply b m\<close> is \<^verbatim>\<open>{"success": b, "message": m}\<close>; \<open>Failed e\<close> is the reply of an
  exception handler, \<^verbatim>\<open>{"success": False, "message": str(e)}\<close>.\<close>

datatype webhook_response = Reply bool string | Failed py_error

text \<open>Lines 70 to 95 of \<^verbatim>\<open>main.py\<close>: one iteration; \<open>Inr None\<close> goes on to the next
  stream, \<open>Inr (Some r)\<close> returns \<open>r\<close>.\<close>

definition try_stream ::
  "env \<Rightarrow> string \<Rightarrow> stream \<Rightarrow> call list \<times> (py_error + webhook_response option)" where
  "try_stream env media_type s =
     (if truthy (infoHash s) \<and> truthy (title s) \<and> fileIdx s \<noteq> None then
        (case check_rd_availability env (the (infoHash s)) of
           (c, Inl e) \<Rightarrow> (c, Inl e)
         | (c, Inr rd_availability) \<Rightarrow>
             if available rd_availability then
               (case rtn_rank env (the (title s)) (the (infoHash s)) of
                  Some t \<Rightarrow>
                    if fetch t then
                      (case add_torrent_and_select_files env (infohash t) (parsed_title t)
                              (the (fileIdx s)) media_type of
                         (c', Inl e) \<Rightarrow>
                           (c @ RtnRank (the (title s)) (the (infoHash s)) # c', Inl e)
                       | (c', Inr None) \<Rightarrow>
                           (c @ RtnRank (the (title s)) (the (infoHash s)) # c',
                            Inl AttributeError)
                       | (c', Inr (Some result)) \<Rightarrow>
                           (c @ RtnRank (the (title s)) (the (infoHash s)) # c',
                            Inr (Some (if success result
                                       then Reply True ''Torrent added''
                                       else Reply False
                                              ''Failed to add torrent to Real-Debrid''))))
                    else (c @ [RtnRank (the (title s)) (the (infoHash s))], Inr None)
                | None \<Rightarrow> (c @ [RtnRank (the (title s)) (the (infoHash s))], Inr None))
             else (c, Inr None))
      else ([], Inr None))"

fun webhook_loop ::
  "env \<Rightarrow> string \<Rightarrow> stream list \<Rightarrow> call list \<times> (py_error + webhook_response)" where
  "webhook_loop env media_type [] =
     ([], Inr (Reply False ''No torrents available on Real-Debrid''))"
| "webhook_loop env media_type (s # ss) =
     (case try_stream env media_type s of
        (c, Inl e) \<Rightarrow> (c, Inl e)
      | (c, Inr (Some r)) \<Rightarrow> (c, Inr r)
      | (c, Inr None) \<Rightarrow>
          (case webhook_loop env media_type ss of (c', r) \<Rightarrow> (c @ c', r)))"

definition jellyseer_webhook ::
  "env \<Rightarrow> webhook_payload \<Rightarrow> call list \<times> webhook_response" where
  "jellyseer_webhook env payload =
     (if subject payload = Some ''Test Notification''
      then ([], Reply True ''Test notification received successfully'')
      else
        (case validated payload of
           None \<Rightarrow> ([], Failed ValidationError)
         | Some m \<Rightarrow>
             (case get_imdb_id_from_trakt env (wh_tmdbId m) (wh_media_type m) of
                (c1, Inl e) \<Rightarrow> (c1, Failed e)
              | (c1, Inr imdb_id) \<Rightarrow>
                  if \<not> truthy imdb_id then (c1, Reply False ''IMDb ID not found'')
                  else
                    (case query_torrentio env (the imdb_id) (wh_media_type m) of
                       (c2, torrentio_results) \<Rightarrow>
                         if found_streams torrentio_results = []
                         then (c1 @ c2, Reply False ''No torrents found'')
                         else
                           (case webhook_loop env (wh_media_type m)
                                   (found_streams torrentio_results) of
                              (c3, Inl e) \<Rightarrow> (c1 @ c2 @ c3, Failed e)
                            | (c3, Inr r) \<Rightarrow> (c1 @ c2 @ c3, r))))))"

section \<open>Observations on a run of the ranking loop\<close>

text \<open>The guard of line 118 alone: the streams that the poll loop checks when it is
  never left early, given the hashes seen so far.\<close>

fun checkable :: "stream list \<Rightarrow> string list \<Rightarrow> stream list" where
  "checkable [] seen = []"
| "checkable (s # ss) seen =
     (if truthy (infoHash s) \<and> truthy (title s) \<and> the (infoHash s) \<notin> set seen
      then s # checkable ss (seen @ [the (infoHash s)])
      else checkable ss seen)"

text \<open>How the check of one stream turns out (lines 120 to 132): the availability call
  raised, the hash is not cached, ranking rejected it (garbage, or not worth fetching),
  or ranking accepted it.\<close>

datatype verdict = Raised py_error | Unavailable | Rejected | Accepted torrent

definition verdict_of :: "env \<Rightarrow> stream \<Rightarrow> verdict" where
  "verdict_of env s =
     (case snd (check_rd_availability env (the (infoHash s))) of
        Inl e \<Rightarrow> Raised e
      | Inr rd_availability \<Rightarrow>
          if available rd_availability then
            (case rtn_rank env (the (title s)) (the (infoHash s)) of
               Some t \<Rightarrow> if fetch t then Accepted t else Rejected
             | None \<Rightarrow> Rejected)
          else Unavailable)"

text \<open>The hashes whose availability a list of calls asks for, and the torrents that its
  ranking calls accept, both in the order of the calls.\<close>

fun queried :: "call list \<Rightarrow> string list" where
  "queried [] = []"
| "queried (InstantAvailability hs # cs) = hs @ queried cs"
| "queried (c # cs) = queried cs"

fun accepted :: "env \<Rightarrow> call list \<Rightarrow> torrent list" where
  "accepted env [] = []"
| "accepted env (RtnRank t h # cs) =
     (case rtn_rank env t h of
        Some tor \<Rightarrow> if fetch tor then tor # accepted env cs else accepted env cs
      | None \<Rightarrow> accepted env cs)"
| "accepted env (c # cs) = accepted env cs"

section \<open>Concrete environments\<close>

text \<open>An environment in which every service answers successfully: five streams with
  distinct hashes, all cached on Real-Debrid, ranked 10, 30, 20, 5 and 25 and accepted.\<close>

definition five_streams :: "stream list" where
  "five_streams =
     [\<lparr>infoHash = Some ''h1'', title = Some ''A'', fileIdx = Some (PyInt 0)\<rparr>,
      \<lparr>infoHash = Some ''h2'', title = Some ''B'', fileIdx = Some (PyInt 0)\<rparr>,
      \<lparr>infoHash = Some ''h3'', title = Some ''C'', fileIdx = Some (PyInt 0)\<rparr>,
      \<lparr>infoHash = Some ''h4'', title = Some ''D'', fileIdx = Some (PyInt 0)\<rparr>,
      \<lparr>infoHash = Some ''h5'', title = Some ''E'', fileIdx = Some (PyInt 0)\<rparr>]"

definition six_streams :: "stream list" where
  "six_streams =
     five_streams @ [\<lparr>infoHash = Some ''h6'', title = Some ''F'', fileIdx = Some (PyInt 0)\<rparr>]"

definition cached :: json where
  "cached =
     JObj [(''rd'', JList [JObj [(''1'', JObj [(''filename'', JStr ''movie.mkv''),
                                                (''filesize'', JNum 1000)])]])]"

definition two_files :: "rd_file list" where
  "two_files = [\<lparr>file_id = 7, path = Some ''movie.mkv''\<rparr>,
                \<lparr>file_id = 8, path = Some ''readme.txt''\<rparr>]"

definition env_ok :: env where
  "env_ok =
     \<lparr>trakt = (\<lambda>i t a. Resp 200 (TraktList
                 [\<lparr>show_imdb = Some (Some ''tt1''), movie_imdb = Some (Some ''tt2'')\<rparr>])),
      torrentio = (\<lambda>i k a. Resp 200 (Some five_streams)),
      rd_instant = (\<lambda>hs. Resp 200 (Some (JObj (map (\<lambda>h. (h, cached)) hs)))),
      rtn = (\<lambda>t h. Scored True
                 (if t = ''A'' then 10 else if t = ''B'' then 30 else if t = ''C'' then 20
                  else if t = ''D'' then 5 else 25) t),
      rd_add = (\<lambda>h n. Resp 201 (Some ''T1'')),
      rd_info = (\<lambda>i. Resp 200 (Some two_files)),
      rd_select = (\<lambda>i fs. Resp 204 ()),
      guess_type = (\<lambda>p. if p = ''movie.mkv'' then Some ''video/x-matroska''
                          else if p = ''readme.txt'' then Some ''text/plain'' else None),
      py_int = (\<lambda>k. if k = ''1'' then Some 1 else None),
      overseerr_mark = (\<lambda>i. Resp 200 ())\<rparr>"

text \<open>What ranking yields for the five streams under \<open>env_ok\<close>.\<close>

definition five_ranked :: "torrent list" where
  "five_ranked =
     [\<lparr>infohash = ''h1'', parsed_title = ''A'', fetch = True, rank = 10\<rparr>,
      \<lparr>infohash = ''h2'', parsed_title = ''B'', fetch = True, rank = 30\<rparr>,
      \<lparr>infohash = ''h3'', parsed_title = ''C'', fetch = True, rank = 20\<rparr>,
      \<lparr>infohash = ''h4'', parsed_title = ''D'', fetch = True, rank = 5\<rparr>,
      \<lparr>infohash = ''h5'', parsed_title = ''E'', fetch = True, rank = 25\<rparr>]"

text \<open>The same services, but discovery returns six streams and the ranking library
  marks every release as garbage.\<close>

definition env_garbage :: env where
  "env_garbage = env_ok\<lparr>torrentio := (\<lambda>i k a. Resp 200 (Some six_streams)),
                         rtn := (\<lambda>t h. GarbageTorrent)\<rparr>"

definition movie_request :: overseerr_request where
  "movie_request = \<lparr>media_id = 11, tmdbId = 603, mediaType = ''movie''\<rparr>"

definition movie_payload :: webhook_payload where
  "movie_payload =
     \<lparr>subject = Some ''Movie Request Approved'',
      validated = Some \<lparr>wh_tmdbId = 603, wh_media_type = ''movie''\<rparr>\<rparr>"

section \<open>Evaluation rules\<close>

lemma range5: "[0..<5] = [0, 1, 2, 3, 4::nat]"
  by code_simp

lemmas model_defs = process_overseerr_request_def get_imdb_id_from_trakt_def range5
   truthy_def trakt_type_def query_torrentio_def torrentio_kind_def found_streams_def
   init_state_def check_stream_def check_rd_availability_def get_instant_availability_def rd_record_def rd_in_def subscript_def py_truthy_def
   py_iter_def py_items_def empty_records_def available_def rtn_rank_def stop_check_def max_hashes_to_check_def
   commit_best_def top_torrents_def sorted_torrents_def add_torrent_and_select_files_def select_files_in_rd_def files_of_def chosen_files_def playable_def mark_completed_def
   jellyseer_webhook_def try_stream_def Let_def

lemmas sample_defs = movie_request_def movie_payload_def five_ranked_def env_garbage_def env_ok_def six_streams_def five_streams_def cached_def
  two_files_def

section \<open>Identifier resolution\<close>

lemma trakt_attempts_calls:
  "set (fst (trakt_attempts env i m as)) \<subseteq> {TraktSearch i (trakt_type m)}"
  by (induction as) (auto split: http.splits prod.splits)

lemma get_imdb_calls:
  "set (fst (get_imdb_id_from_trakt env i m)) \<subseteq> {TraktSearch i (trakt_type m)}"
  unfolding get_imdb_id_from_trakt_def by (rule trakt_attempts_calls)

lemma trakt_empty_result:
  assumes "k < 5"
    and "\<forall>j<k. trakt env i (trakt_type m) j = ConnError"
    and "trakt env i (trakt_type m) k = Resp 200 (TraktList [])"
  shows "snd (get_imdb_id_from_trakt env i m) = Inr None"
proof -
  from assms(1) have "k = 0 \<or> k = 1 \<or> k = 2 \<or> k = 3 \<or> k = 4" by arith
  then show ?thesis
    using assms(2,3)
    by (elim disjE) (simp_all add: get_imdb_id_from_trakt_def range5 split: prod.splits)
qed

lemma poll_not_found:
  assumes "snd (get_imdb_id_from_trakt env (tmdbId request) (mediaType request)) = Inr None"
  shows "process_overseerr_request env request =
           (fst (get_imdb_id_from_trakt env (tmdbId request) (mediaType request)), ImdbNotFound)"
  using assms
  by (cases "get_imdb_id_from_trakt env (tmdbId request) (mediaType request)")
     (simp add: process_overseerr_request_def truthy_def)

text \<open>
  Claim C8. When Trakt answers one of the five attempts with status 200 and an empty
  list (the attempts before it having failed in transport), the resolver returns
  \<open>None\<close>, a value and not an exception. And whenever the resolver returns \<open>None\<close> on the
  poll path, the request ends with "IMDb ID not found" and the only outside calls made
  are the Trakt searches: no discovery call, no Real-Debrid call, no acknowledgement.
\<close>

theorem resolver_not_found_skips_request:
  "(k < 5
      \<and> (\<forall>j<k. trakt env (tmdbId request) (trakt_type (mediaType request)) j = ConnError)
      \<and> trakt env (tmdbId request) (trakt_type (mediaType request)) k = Resp 200 (TraktList [])
    \<longrightarrow> snd (get_imdb_id_from_trakt env (tmdbId request) (mediaType request)) = Inr None)
   \<and> (snd (get_imdb_id_from_trakt env (tmdbId request) (mediaType request)) = Inr None
    \<longrightarrow> snd (process_overseerr_request env request) = ImdbNotFound
        \<and> set (fst (process_overseerr_request env request))
            \<subseteq> {TraktSearch (tmdbId request) (trakt_type (mediaType request))})"
proof (intro conjI impI)
  assume "k < 5
      \<and> (\<forall>j<k. trakt env (tmdbId request) (trakt_type (mediaType request)) j = ConnError)
      \<and> trakt env (tmdbId request) (trakt_type (mediaType request)) k = Resp 200 (TraktList [])"
  then show "snd (get_imdb_id_from_trakt env (tmdbId request) (mediaType request)) = Inr None"
    using trakt_empty_result by blast
next
  assume nf: "snd (get_imdb_id_from_trakt env (tmdbId request) (mediaType request)) = Inr None"
  show "snd (process_overseerr_request env request) = ImdbNotFound"
    by (simp add: poll_not_found [OF nf])
  show "set (fst (process_overseerr_request env request))
          \<subseteq> {TraktSearch (tmdbId request) (trakt_type (mediaType request))}"
    using get_imdb_calls by (simp add: poll_not_found [OF nf])
qed

theorem resolver_not_found_skips_request_witness:
  "snd (get_imdb_id_from_trakt (env_ok\<lparr>trakt := \<lambda>i t a. Resp 200 (TraktList [])\<rparr>) 603 ''movie'')
     = Inr None
   \<and> process_overseerr_request (env_ok\<lparr>trakt := \<lambda>i t a. Resp 200 (TraktList [])\<rparr>) movie_request
     = ([TraktSearch 603 ''movie''], ImdbNotFound)"
proof -
  let ?env = "env_ok\<lparr>trakt := \<lambda>i t a. Resp 200 (TraktList [])\<rparr>"
  have pre: "(0::nat) < 5
      \<and> (\<forall>j<0. trakt ?env (tmdbId movie_request) (trakt_type (mediaType movie_request)) j = ConnError)
      \<and> trakt ?env (tmdbId movie_request) (trakt_type (mediaType movie_request)) 0
          = Resp 200 (TraktList [])"
    by simp
  have nf: "snd (get_imdb_id_from_trakt ?env (tmdbId movie_request) (mediaType movie_request))
              = Inr None"
    using resolver_not_found_skips_request [of 0 ?env movie_request] pre by blast
  have out: "snd (process_overseerr_request ?env movie_request) = ImdbNotFound"
    using resolver_not_found_skips_request [of 0 ?env movie_request] nf by blast
  have calls: "fst (process_overseerr_request ?env movie_request) = [TraktSearch 603 ''movie'']"
    by (simp add: process_overseerr_request_def get_imdb_id_from_trakt_def range5
        movie_request_def truthy_def trakt_type_def)
  from nf out calls show ?thesis
    by (simp add: movie_request_def prod_eq_iff)
qed

section \<open>Which calls each stage makes\<close>

lemma torrentio_attempts_calls:
  "set (fst (torrentio_attempts env i m as)) \<subseteq> {TorrentioQuery i (torrentio_kind m)}"
  by (induction as) (auto split: http.splits prod.splits)

lemma query_torrentio_calls:
  "set (fst (query_torrentio env i m)) \<subseteq> {TorrentioQuery i (torrentio_kind m)}"
  unfolding query_torrentio_def by (rule torrentio_attempts_calls)

lemma check_rd_calls: "fst (check_rd_availability env h) = [InstantAvailability [h]]"
  by (simp add: check_rd_availability_def get_instant_availability_def split: sum.splits http.splits)

lemma check_stream_calls:
  "c \<in> set (fst (check_stream env s st)) \<Longrightarrow>
     (\<exists>h. c = InstantAvailability [h]) \<or> (\<exists>t h. c = RtnRank t h)"
  using check_rd_calls [of env "the (infoHash s)"]
  by (cases "check_rd_availability env (the (infoHash s))")
     (auto simp: check_stream_def Let_def split: if_splits sum.splits)

lemma rank_loop_calls:
  "c \<in> set (fst (rank_loop env ss st)) \<Longrightarrow>
     (\<exists>h. c = InstantAvailability [h]) \<or> (\<exists>t h. c = RtnRank t h)"
proof (induction ss arbitrary: st)
  case Nil
  then show ?case by simp
next
  case (Cons s ss)
  show ?case
  proof (cases "check_stream env s st")
    case (Pair c1 r)
    show ?thesis
    proof (cases r)
      case (Inl e)
      with Pair Cons.prems check_stream_calls [of c env s st] show ?thesis by simp
    next
      case (Inr p)
      obtain st' stop where p: "p = (st', stop)" by (cases p)
      show ?thesis
      proof (cases stop)
        case True
        with Pair Inr p Cons.prems check_stream_calls [of c env s st] show ?thesis by simp
      next
        case False
        with Pair Inr p Cons.prems have "c \<in> set c1 \<or> c \<in> set (fst (rank_loop env ss st'))"
          by (auto split: prod.splits)
        then show ?thesis
          using Cons.IH [of st'] check_stream_calls [of c env s st] Pair by auto
      qed
    qed
  qed
qed

lemma select_str_raises:
  "snd (select_files_in_rd env tid (PyStr s) mt) \<noteq> Inr True
   \<and> set (fst (select_files_in_rd env tid (PyStr s) mt)) \<subseteq> {TorrentInfo tid}"
  by (simp add: select_files_in_rd_def chosen_files_def split: http.splits)

lemma select_str_type_error:
  "rd_info env tid = Resp 200 fs \<Longrightarrow>
   select_files_in_rd env tid (PyStr s) mt = ([TorrentInfo tid], Inl TypeError)"
  by (simp add: select_files_in_rd_def chosen_files_def)

lemma add_calls:
  "c \<in> set (fst (add_torrent_and_select_files env h n idx mt)) \<Longrightarrow>
     c = AddMagnet h n \<or> (\<exists>t. c = TorrentInfo t) \<or> (\<exists>t fs. c = SelectFiles t fs)"
  by (auto simp: add_torrent_and_select_files_def select_files_in_rd_def
      split: http.splits if_splits prod.splits sum.splits option.splits)

lemma select_str_not_true: "select_files_in_rd env tid (PyStr s) mt \<noteq> (c, Inr True)"
  using select_str_raises [of env tid s mt] by auto

lemma add_str_no_success:
  "snd (add_torrent_and_select_files env h n (PyStr s) mt) = Inr (Some r) \<Longrightarrow> \<not> success r"
  by (auto simp: add_torrent_and_select_files_def select_str_not_true
      split: http.splits if_splits prod.splits sum.splits)

lemma commit_best_no_ack:
  "snd (commit_best env request ranked) \<noteq> Completed b
   \<and> MarkAvailable m \<notin> set (fst (commit_best env request ranked))"
proof (cases "top_torrents ranked")
  case Nil
  then show ?thesis by (simp add: commit_best_def)
next
  case (Cons best rest)
  obtain c r where a: "add_torrent_and_select_files env (infohash best) (parsed_title best)
      (PyStr ''1'') (mediaType request) = (c, r)"
    by (cases "add_torrent_and_select_files env (infohash best) (parsed_title best)
      (PyStr ''1'') (mediaType request)")
  have nomark: "MarkAvailable m \<notin> set c"
    using add_calls [of "MarkAvailable m" env "infohash best" "parsed_title best"
        "PyStr ''1''" "mediaType request"] a by auto
  have nosucc: "\<And>res. r = Inr (Some res) \<Longrightarrow> \<not> success res"
    using add_str_no_success [of env "infohash best" "parsed_title best" "''1''"
        "mediaType request"] a by simp
  show ?thesis
    using Cons a nomark nosucc
    by (auto simp: commit_best_def split: sum.splits option.splits)
qed

lemma poll_never_acknowledges:
  "snd (process_overseerr_request env request) \<noteq> Completed b
   \<and> MarkAvailable m \<notin> set (fst (process_overseerr_request env request))"
proof -
  have t: "MarkAvailable m \<notin> set (fst (get_imdb_id_from_trakt env i mt))" for i mt
    using get_imdb_calls [of env i mt] by auto
  have q: "MarkAvailable m \<notin> set (fst (query_torrentio env i mt))" for i mt
    using query_torrentio_calls [of env i mt] by auto
  have l: "MarkAvailable m \<notin> set (fst (rank_loop env ss st))" for ss st
    using rank_loop_calls [of "MarkAvailable m" env ss st] by auto
  obtain c1 r1 where g: "get_imdb_id_from_trakt env (tmdbId request) (mediaType request) = (c1, r1)"
    by (cases "get_imdb_id_from_trakt env (tmdbId request) (mediaType request)")
  have c1: "MarkAvailable m \<notin> set c1" using t [of "tmdbId request" "mediaType request"] g by simp
  show ?thesis
  proof (cases r1)
    case (Inl e)
    with g c1 show ?thesis by (simp add: process_overseerr_request_def)
  next
    case (Inr imdb_id)
    obtain c2 r2 where d: "query_torrentio env (the imdb_id) (mediaType request) = (c2, r2)"
      by (cases "query_torrentio env (the imdb_id) (mediaType request)")
    have c2: "MarkAvailable m \<notin> set c2" using q [of "the imdb_id" "mediaType request"] d by simp
    obtain c3 r3 where lp: "rank_loop env (found_streams r2) init_state = (c3, r3)"
      by (cases "rank_loop env (found_streams r2) init_state")
    have c3: "MarkAvailable m \<notin> set c3" using l [of "found_streams r2" init_state] lp by simp
    show ?thesis
    proof (cases r3)
      case e: (Inl e)
      with g Inr d lp c1 c2 c3 show ?thesis by (simp add: process_overseerr_request_def)
    next
      case st: (Inr st)
      obtain c4 out where cb: "commit_best env request (ranked_torrents st) = (c4, out)"
        by (cases "commit_best env request (ranked_torrents st)")
      have "out \<noteq> Completed b" "MarkAvailable m \<notin> set c4"
        using commit_best_no_ack [of env request "ranked_torrents st" b m] cb by simp_all
      with g Inr d lp st cb c1 c2 c3 show ?thesis by (simp add: process_overseerr_request_def)
    qed
  qed
qed

lemma commit_best_calls:
  assumes "top_torrents ranked = best # rest"
  shows "fst (commit_best env request ranked) =
         fst (add_torrent_and_select_files env (infohash best) (parsed_title best)
                (PyStr ''1'') (mediaType request))"
proof -
  obtain c r where a: "add_torrent_and_select_files env (infohash best) (parsed_title best)
      (PyStr ''1'') (mediaType request) = (c, r)"
    by (cases "add_torrent_and_select_files env (infohash best) (parsed_title best)
      (PyStr ''1'') (mediaType request)")
  have nosucc: "\<And>res. r = Inr (Some res) \<Longrightarrow> \<not> success res"
    using add_str_no_success [of env "infohash best" "parsed_title best" "''1''"
        "mediaType request"] a by simp
  show ?thesis
    using assms a nosucc by (auto simp: commit_best_def split: sum.splits option.splits)
qed

text \<open>
  Claim C10. The poll path hands the commit stage the string \<open>''1''\<close> as file index: the
  calls of its commit are those of \<open>add_torrent_and_select_files\<close> at \<open>PyStr ''1''\<close>. For a
  movie, once the file listing has been fetched, the range check compares that string
  with an integer and raises TypeError before any file is selected; so the commit never
  returns a result with \<open>success = True\<close>, and the poll path never acknowledges the
  request.
\<close>

theorem poll_movie_commit_never_succeeds:
  assumes "mediaType request = ''movie''"
  shows "(\<forall>best rest. top_torrents ranked = best # rest \<longrightarrow>
            fst (commit_best env request ranked) =
            fst (add_torrent_and_select_files env (infohash best) (parsed_title best)
                   (PyStr ''1'') ''movie''))
       \<and> (\<forall>tid fs. rd_info env tid = Resp 200 fs \<longrightarrow>
            select_files_in_rd env tid (PyStr ''1'') ''movie'' = ([TorrentInfo tid], Inl TypeError))
       \<and> (\<forall>h n r. snd (add_torrent_and_select_files env h n (PyStr ''1'') ''movie'') = Inr (Some r)
            \<longrightarrow> \<not> success r)
       \<and> (\<forall>b. snd (process_overseerr_request env request) \<noteq> Completed b)
       \<and> (\<forall>m. MarkAvailable m \<notin> set (fst (process_overseerr_request env request)))"
proof (intro conjI allI impI)
  fix best rest assume "top_torrents ranked = best # rest"
  then show "fst (commit_best env request ranked) =
            fst (add_torrent_and_select_files env (infohash best) (parsed_title best)
                   (PyStr ''1'') ''movie'')"
    using commit_best_calls [of ranked best rest env request] assms by simp
next
  fix tid fs assume "rd_info env tid = Resp 200 fs"
  then show "select_files_in_rd env tid (PyStr ''1'') ''movie'' = ([TorrentInfo tid], Inl TypeError)"
    by (rule select_str_type_error)
next
  fix h n r assume "snd (add_torrent_and_select_files env h n (PyStr ''1'') ''movie'') = Inr (Some r)"
  then show "\<not> success r" by (rule add_str_no_success)
next
  fix b show "snd (process_overseerr_request env request) \<noteq> Completed b"
    using poll_never_acknowledges by blast
next
  fix m show "MarkAvailable m \<notin> set (fst (process_overseerr_request env request))"
    using poll_never_acknowledges by blast
qed

theorem poll_movie_commit_never_succeeds_witness:
  "mediaType movie_request = ''movie''
   \<and> select_files_in_rd env_ok ''T1'' (PyStr ''1'') ''movie'' = ([TorrentInfo ''T1''], Inl TypeError)
   \<and> process_overseerr_request env_ok movie_request =
       ([TraktSearch 603 ''movie'', TorrentioQuery ''tt2'' ''movie'',
         InstantAvailability [''h1''], RtnRank ''A'' ''h1'',
         InstantAvailability [''h2''], RtnRank ''B'' ''h2'',
         InstantAvailability [''h3''], RtnRank ''C'' ''h3'',
         InstantAvailability [''h4''], RtnRank ''D'' ''h4'',
         InstantAvailability [''h5''], RtnRank ''E'' ''h5'',
         AddMagnet ''h2'' ''B'', TorrentInfo ''T1''], Errored TypeError)
   \<and> (\<forall>b. snd (process_overseerr_request env_ok movie_request) \<noteq> Completed b)"
proof -
  have m: "mediaType movie_request = ''movie''" by (simp add: movie_request_def)
  have i: "rd_info env_ok ''T1'' = Resp 200 (Some two_files)" by (simp add: env_ok_def)
  note t = poll_movie_commit_never_succeeds [OF m, of "[]" env_ok]
  from t i have s: "select_files_in_rd env_ok ''T1'' (PyStr ''1'') ''movie'' = ([TorrentInfo ''T1''], Inl TypeError)"
    by blast
  from t have n: "\<forall>b. snd (process_overseerr_request env_ok movie_request) \<noteq> Completed b"
    by blast
  have e: "process_overseerr_request env_ok movie_request =
       ([TraktSearch 603 ''movie'', TorrentioQuery ''tt2'' ''movie'',
         InstantAvailability [''h1''], RtnRank ''A'' ''h1'',
         InstantAvailability [''h2''], RtnRank ''B'' ''h2'',
         InstantAvailability [''h3''], RtnRank ''C'' ''h3'',
         InstantAvailability [''h4''], RtnRank ''D'' ''h4'',
         InstantAvailability [''h5''], RtnRank ''E'' ''h5'',
         AddMagnet ''h2'' ''B'', TorrentInfo ''T1''], Errored TypeError)"
    by (simp add: model_defs sample_defs)
  from m s e n show ?thesis by blast
qed

section \<open>File selection of the commit stage\<close>

lemma add_after_listing:
  assumes "rd_add env h n = Resp 201 (Some tid)" and "tid \<noteq> []"
    and "rd_info env tid = Resp 200 files_data"
  shows "add_torrent_and_select_files env h n idx mt =
     (case chosen_files env (files_of files_data) idx mt of
        Inl e \<Rightarrow> ([AddMagnet h n, TorrentInfo tid], Inl e)
      | Inr None \<Rightarrow>
          ([AddMagnet h n, TorrentInfo tid],
           Inr (Some \<lparr>success = False, message = ''Failed to select files in the torrent.'',
                      torrent_id = None\<rparr>))
      | Inr (Some sel) \<Rightarrow>
          ([AddMagnet h n, TorrentInfo tid, SelectFiles tid sel],
           case rd_select env tid sel of
             ConnError \<Rightarrow> Inl RequestException
           | Resp st u \<Rightarrow>
               Inr (Some (if st = 204
                          then \<lparr>success = True, message = ''Torrent added and files selected.'',
                                torrent_id = Some tid\<rparr>
                          else \<lparr>success = False,
                                message = ''Failed to select files in the torrent.'',
                                torrent_id = None\<rparr>))))"
  using assms
  by (simp add: add_torrent_and_select_files_def select_files_in_rd_def truthy_def
      split: sum.splits option.splits http.splits)

lemma movie_select_calls:
  assumes "SelectFiles t sel \<in> set (fst (add_torrent_and_select_files env h n (PyInt i) ''movie''))"
  shows "\<exists>files_data. rd_info env t = Resp 200 files_data
           \<and> 0 \<le> i \<and> i < int (length (files_of files_data))
           \<and> sel = [file_id (files_of files_data ! nat i)]"
  using assms
  by (auto simp: add_torrent_and_select_files_def select_files_in_rd_def chosen_files_def
      split: http.splits if_splits sum.splits option.splits prod.splits)

text \<open>
  The commit stage for a movie and an integer file index, as the push path passes it.
  Once the magnet is accepted and the file listing fetched: an index within the listing
  selects exactly the one file at that position (a single \<open>SelectFiles\<close> call with that
  file's id), and the commit succeeds exactly when the service answers that call with
  204; an index outside the listing makes no \<open>SelectFiles\<close> call at all and returns
  \<open>success = False\<close>. In every environment, a \<open>SelectFiles\<close> call of a movie commit with an
  integer index carries the single file at that index.
\<close>

theorem movie_selects_indexed_file:
  assumes "rd_add env h n = Resp 201 (Some tid)" and "tid \<noteq> []"
    and "rd_info env tid = Resp 200 files_data"
  shows "(0 \<le> i \<and> i < int (length (files_of files_data)) \<longrightarrow>
            fst (add_torrent_and_select_files env h n (PyInt i) ''movie'') =
              [AddMagnet h n, TorrentInfo tid,
               SelectFiles tid [file_id (files_of files_data ! nat i)]]
            \<and> (\<forall>r. snd (add_torrent_and_select_files env h n (PyInt i) ''movie'') = Inr (Some r)
                 \<longrightarrow> success r =
                     (\<exists>u. rd_select env tid [file_id (files_of files_data ! nat i)] = Resp 204 u)))
       \<and> (\<not> (0 \<le> i \<and> i < int (length (files_of files_data))) \<longrightarrow>
            fst (add_torrent_and_select_files env h n (PyInt i) ''movie'') =
              [AddMagnet h n, TorrentInfo tid]
            \<and> (\<exists>r. snd (add_torrent_and_select_files env h n (PyInt i) ''movie'') = Inr (Some r)
                 \<and> \<not> success r))
       \<and> (\<forall>env' t sel.
            SelectFiles t sel \<in> set (fst (add_torrent_and_select_files env' h n (PyInt i) ''movie''))
            \<longrightarrow> (\<exists>fd. rd_info env' t = Resp 200 fd \<and> 0 \<le> i \<and> i < int (length (files_of fd))
                      \<and> sel = [file_id (files_of fd ! nat i)]))"
proof (intro conjI impI allI)
  assume r: "0 \<le> i \<and> i < int (length (files_of files_data))"
  then show "fst (add_torrent_and_select_files env h n (PyInt i) ''movie'') =
              [AddMagnet h n, TorrentInfo tid,
               SelectFiles tid [file_id (files_of files_data ! nat i)]]"
    by (simp add: add_after_listing [OF assms] chosen_files_def)
  fix r' assume "snd (add_torrent_and_select_files env h n (PyInt i) ''movie'') = Inr (Some r')"
  with r show "success r' =
      (\<exists>u. rd_select env tid [file_id (files_of files_data ! nat i)] = Resp 204 u)"
    by (auto simp: add_after_listing [OF assms] chosen_files_def split: http.splits if_splits)
next
  assume r: "\<not> (0 \<le> i \<and> i < int (length (files_of files_data)))"
  then show "fst (add_torrent_and_select_files env h n (PyInt i) ''movie'') =
              [AddMagnet h n, TorrentInfo tid]"
    by (auto simp: add_after_listing [OF assms] chosen_files_def)
  from r show "\<exists>r. snd (add_torrent_and_select_files env h n (PyInt i) ''movie'') = Inr (Some r)
                 \<and> \<not> success r"
    by (auto simp: add_after_listing [OF assms] chosen_files_def)
next
  fix env' t sel
  assume "SelectFiles t sel \<in> set (fst (add_torrent_and_select_files env' h n (PyInt i) ''movie''))"
  then show "\<exists>fd. rd_info env' t = Resp 200 fd \<and> 0 \<le> i \<and> i < int (length (files_of fd))
                      \<and> sel = [file_id (files_of fd ! nat i)]"
    by (rule movie_select_calls)
qed

theorem movie_selects_indexed_file_witness:
  "rd_add env_ok ''h2'' ''B'' = Resp 201 (Some ''T1'') \<and> ''T1'' \<noteq> []
   \<and> rd_info env_ok ''T1'' = Resp 200 (Some two_files)
   \<and> fst (add_torrent_and_select_files env_ok ''h2'' ''B'' (PyInt 1) ''movie'') =
       [AddMagnet ''h2'' ''B'', TorrentInfo ''T1'', SelectFiles ''T1'' [8]]
   \<and> fst (add_torrent_and_select_files env_ok ''h2'' ''B'' (PyInt 2) ''movie'') =
       [AddMagnet ''h2'' ''B'', TorrentInfo ''T1'']"
proof -
  have a: "rd_add env_ok ''h2'' ''B'' = Resp 201 (Some ''T1'')" by (simp add: env_ok_def)
  have t: "''T1'' \<noteq> []" by simp
  have i: "rd_info env_ok ''T1'' = Resp 200 (Some two_files)" by (simp add: env_ok_def)
  have l: "files_of (Some two_files) = two_files" "length two_files = 2"
    "file_id (two_files ! nat 1) = 8"
    by (simp_all add: files_of_def two_files_def)
  from movie_selects_indexed_file [OF a t i, of 1] l
  have one: "fst (add_torrent_and_select_files env_ok ''h2'' ''B'' (PyInt 1) ''movie'') =
       [AddMagnet ''h2'' ''B'', TorrentInfo ''T1'', SelectFiles ''T1'' [8]]"
    by simp
  from movie_selects_indexed_file [OF a t i, of 2] l
  have two: "fst (add_torrent_and_select_files env_ok ''h2'' ''B'' (PyInt 2) ''movie'') =
       [AddMagnet ''h2'' ''B'', TorrentInfo ''T1'']"
    by simp
  from a t i one two show ?thesis by blast
qed

text \<open>
  Claim C4 fails on the poll path, which hands the commit stage the string \<open>''1''\<close> where
  the signature and the docstring of \<^verbatim>\<open>add_torrent_and_select_files\<close> declare an
  integer index. With every service answering successfully and two files listed, the
  range check raises TypeError: the movie commit selects no file and returns no result
  at all, and the request ends in the exception handler. The same commit with the
  integer 1 selects the second file and succeeds.
\<close>

theorem poll_movie_commit_selects_nothing:
  "chosen_files env_ok two_files (PyStr ''1'') ''movie'' = Inl TypeError
   \<and> add_torrent_and_select_files env_ok ''h2'' ''B'' (PyStr ''1'') ''movie''
       = ([AddMagnet ''h2'' ''B'', TorrentInfo ''T1''], Inl TypeError)
   \<and> process_overseerr_request env_ok movie_request
       = ([TraktSearch 603 ''movie'', TorrentioQuery ''tt2'' ''movie'',
           InstantAvailability [''h1''], RtnRank ''A'' ''h1'',
           InstantAvailability [''h2''], RtnRank ''B'' ''h2'',
           InstantAvailability [''h3''], RtnRank ''C'' ''h3'',
           InstantAvailability [''h4''], RtnRank ''D'' ''h4'',
           InstantAvailability [''h5''], RtnRank ''E'' ''h5'',
           AddMagnet ''h2'' ''B'', TorrentInfo ''T1''], Errored TypeError)
   \<and> add_torrent_and_select_files env_ok ''h2'' ''B'' (PyInt 1) ''movie''
       = ([AddMagnet ''h2'' ''B'', TorrentInfo ''T1'', SelectFiles ''T1'' [8]],
          Inr (Some \<lparr>success = True, message = ''Torrent added and files selected.'',
                     torrent_id = Some ''T1''\<rparr>))"
  by (simp add: model_defs sample_defs)

text \<open>
  Claim C5 as stated fails: the listing holds one video file, yet with the index 2,
  beyond the two listed files, a series commit selects nothing and fails, while with
  index 0 it selects the video file.
\<close>

theorem series_hint_out_of_range_counterexample:
  "filter (playable env_ok) two_files = [\<lparr>file_id = 7, path = Some ''movie.mkv''\<rparr>]
   \<and> fst (add_torrent_and_select_files env_ok ''h2'' ''B'' (PyInt 0) ''tv'') =
       [AddMagnet ''h2'' ''B'', TorrentInfo ''T1'', SelectFiles ''T1'' [7]]
   \<and> add_torrent_and_select_files env_ok ''h2'' ''B'' (PyInt 2) ''tv'' =
       ([AddMagnet ''h2'' ''B'', TorrentInfo ''T1''],
        Inr (Some \<lparr>success = False, message = ''Failed to select files in the torrent.'',
                   torrent_id = None\<rparr>))"
  by (simp add: model_defs sample_defs)

lemma out_of_range_fails:
  assumes "rd_add env h n = Resp 201 (Some tid)" and "tid \<noteq> []"
    and "rd_info env tid = Resp 200 files_data"
    and "\<not> (0 \<le> i \<and> i < int (length (files_of files_data)))"
  shows "add_torrent_and_select_files env h n (PyInt i) mt =
           ([AddMagnet h n, TorrentInfo tid],
            Inr (Some \<lparr>success = False, message = ''Failed to select files in the torrent.'',
                       torrent_id = None\<rparr>))"
proof -
  from assms(4) have "i < 0 \<or> int (length (files_of files_data)) \<le> i" by arith
  then have "chosen_files env (files_of files_data) (PyInt i) mt = Inr None"
    by (simp add: chosen_files_def)
  then show ?thesis by (simp add: add_after_listing [OF assms(1-3)])
qed

lemma series_chosen:
  assumes "0 \<le> i \<and> i < int (length files)"
  shows "chosen_files env files (PyInt i) ''tv'' =
           (if filter (playable env) files = [] then Inr None
            else Inr (Some (map file_id (filter (playable env) files))))"
  using assms by (simp add: chosen_files_def)

text \<open>
  Claim C5, as the code has it. A series commit with an integer file index, once the
  magnet is accepted and the file listing fetched. When the index lies within the
  listing, the selection is exactly the files that \<open>playable\<close> accepts (MIME type
  starting with \<open>video\<close>), in listing order, the same for every index within the listing,
  and the commit fails when no file qualifies. When the index lies outside the listing,
  no file is selected and the commit returns \<open>success = False\<close>: the range check of
  line 406 comes before the branch on the media type.
\<close>

theorem series_selects_video_files:
  assumes "rd_add env h n = Resp 201 (Some tid)" and "tid \<noteq> []"
    and "rd_info env tid = Resp 200 files_data"
  shows "(0 \<le> i \<and> i < int (length (files_of files_data)) \<longrightarrow>
            (filter (playable env) (files_of files_data) \<noteq> [] \<longrightarrow>
               fst (add_torrent_and_select_files env h n (PyInt i) ''tv'') =
                 [AddMagnet h n, TorrentInfo tid,
                  SelectFiles tid (map file_id (filter (playable env) (files_of files_data)))])
            \<and> (filter (playable env) (files_of files_data) = [] \<longrightarrow>
               fst (add_torrent_and_select_files env h n (PyInt i) ''tv'') =
                 [AddMagnet h n, TorrentInfo tid]
               \<and> (\<exists>r. snd (add_torrent_and_select_files env h n (PyInt i) ''tv'') = Inr (Some r)
                    \<and> \<not> success r))
            \<and> (\<forall>j. 0 \<le> j \<and> j < int (length (files_of files_data)) \<longrightarrow>
                 add_torrent_and_select_files env h n (PyInt j) ''tv'' =
                 add_torrent_and_select_files env h n (PyInt i) ''tv''))
       \<and> (\<not> (0 \<le> i \<and> i < int (length (files_of files_data))) \<longrightarrow>
            fst (add_torrent_and_select_files env h n (PyInt i) ''tv'') =
              [AddMagnet h n, TorrentInfo tid]
            \<and> (\<exists>r. snd (add_torrent_and_select_files env h n (PyInt i) ''tv'') = Inr (Some r)
                 \<and> \<not> success r))"
proof -
  note unfold = add_after_listing [OF assms]
  have inside: "filter (playable env) (files_of files_data) \<noteq> [] \<longrightarrow>
               fst (add_torrent_and_select_files env h n (PyInt i) ''tv'') =
                 [AddMagnet h n, TorrentInfo tid,
                  SelectFiles tid (map file_id (filter (playable env) (files_of files_data)))]"
    if "0 \<le> i \<and> i < int (length (files_of files_data))"
    by (simp add: unfold series_chosen [OF that])
  have none: "filter (playable env) (files_of files_data) = [] \<longrightarrow>
               fst (add_torrent_and_select_files env h n (PyInt i) ''tv'') =
                 [AddMagnet h n, TorrentInfo tid]
               \<and> (\<exists>r. snd (add_torrent_and_select_files env h n (PyInt i) ''tv'') = Inr (Some r)
                    \<and> \<not> success r)"
    if "0 \<le> i \<and> i < int (length (files_of files_data))"
    by (simp add: unfold series_chosen [OF that])
  have same: "add_torrent_and_select_files env h n (PyInt j) ''tv'' =
                 add_torrent_and_select_files env h n (PyInt i) ''tv''"
    if "0 \<le> i \<and> i < int (length (files_of files_data))"
      and "0 \<le> j \<and> j < int (length (files_of files_data))" for j
    by (simp add: unfold series_chosen [OF that(1)] series_chosen [OF that(2)])
  have outside: "fst (add_torrent_and_select_files env h n (PyInt i) ''tv'') =
              [AddMagnet h n, TorrentInfo tid]
            \<and> (\<exists>r. snd (add_torrent_and_select_files env h n (PyInt i) ''tv'') = Inr (Some r)
                 \<and> \<not> success r)"
    if "\<not> (0 \<le> i \<and> i < int (length (files_of files_data)))"
    by (simp add: out_of_range_fails [OF assms that])
  from inside none same outside show ?thesis by blast
qed

theorem series_selects_video_files_witness:
  "rd_add env_ok ''h2'' ''B'' = Resp 201 (Some ''T1'') \<and> ''T1'' \<noteq> []
   \<and> rd_info env_ok ''T1'' = Resp 200 (Some two_files)
   \<and> fst (add_torrent_and_select_files env_ok ''h2'' ''B'' (PyInt 1) ''tv'') =
       [AddMagnet ''h2'' ''B'', TorrentInfo ''T1'', SelectFiles ''T1'' [7]]
   \<and> add_torrent_and_select_files env_ok ''h2'' ''B'' (PyInt 0) ''tv'' =
     add_torrent_and_select_files env_ok ''h2'' ''B'' (PyInt 1) ''tv''"
proof -
  have a: "rd_add env_ok ''h2'' ''B'' = Resp 201 (Some ''T1'')" by (simp add: env_ok_def)
  have t: "''T1'' \<noteq> []" by simp
  have i: "rd_info env_ok ''T1'' = Resp 200 (Some two_files)" by (simp add: env_ok_def)
  have r1: "0 \<le> (1::int) \<and> 1 < int (length (files_of (Some two_files)))"
    by (simp add: files_of_def two_files_def)
  have r0: "0 \<le> (0::int) \<and> 0 < int (length (files_of (Some two_files)))"
    by (simp add: files_of_def two_files_def)
  have v: "filter (playable env_ok) (files_of (Some two_files))
             = [\<lparr>file_id = 7, path = Some ''movie.mkv''\<rparr>]"
    by (simp add: files_of_def two_files_def playable_def env_ok_def)
  then have v': "filter (playable env_ok) (files_of (Some two_files)) \<noteq> []" by simp
  note s = series_selects_video_files [OF a t i, of 1]
  from s r1 v'
  have "fst (add_torrent_and_select_files env_ok ''h2'' ''B'' (PyInt 1) ''tv'') =
       [AddMagnet ''h2'' ''B'', TorrentInfo ''T1'',
        SelectFiles ''T1'' (map file_id (filter (playable env_ok) (files_of (Some two_files))))]"
    by blast
  then have one: "fst (add_torrent_and_select_files env_ok ''h2'' ''B'' (PyInt 1) ''tv'') =
       [AddMagnet ''h2'' ''B'', TorrentInfo ''T1'', SelectFiles ''T1'' [7]]"
    by (simp add: v)
  from s r1 r0
  have two: "add_torrent_and_select_files env_ok ''h2'' ''B'' (PyInt 0) ''tv'' =
     add_torrent_and_select_files env_ok ''h2'' ''B'' (PyInt 1) ''tv''"
    by blast
  from a t i one two show ?thesis by blast
qed

section \<open>The availability mapping\<close>















section \<open>The ranking loop of the poll path\<close>

lemma check_stream_skip:
  "\<not> (truthy (infoHash s) \<and> truthy (title s) \<and> the (infoHash s) \<notin> set (checked_hashes st))
   \<Longrightarrow> check_stream env s st = ([], Inr (st, False))"
  by (auto simp: check_stream_def)

lemma check_stream_step:
  assumes "truthy (infoHash s)" "truthy (title s)" "the (infoHash s) \<notin> set (checked_hashes st)"
  shows "check_stream env s st =
     (case verdict_of env s of
        Raised e \<Rightarrow> ([InstantAvailability [the (infoHash s)]], Inl e)
      | Unavailable \<Rightarrow>
          ([InstantAvailability [the (infoHash s)]],
           Inr (stop_check (st\<lparr>checked_hashes := checked_hashes st @ [the (infoHash s)]\<rparr>)))
      | Rejected \<Rightarrow>
          ([InstantAvailability [the (infoHash s)], RtnRank (the (title s)) (the (infoHash s))],
           Inr (stop_check (st\<lparr>checked_hashes := checked_hashes st @ [the (infoHash s)],
                                garbage_count := garbage_count st + 1\<rparr>)))
      | Accepted t \<Rightarrow>
          ([InstantAvailability [the (infoHash s)], RtnRank (the (title s)) (the (infoHash s))],
           Inr (stop_check (st\<lparr>checked_hashes := checked_hashes st @ [the (infoHash s)],
                                ranked_torrents := ranked_torrents st @ [t]\<rparr>))))"
proof -
  obtain c r where a: "check_rd_availability env (the (infoHash s)) = (c, r)"
    by (cases "check_rd_availability env (the (infoHash s))")
  have c: "c = [InstantAvailability [the (infoHash s)]]"
    using check_rd_calls [of env "the (infoHash s)"] a by simp
  show ?thesis
    using assms a c
    by (cases r; cases "rtn_rank env (the (title s)) (the (infoHash s))")
       (simp_all add: check_stream_def verdict_of_def Let_def)
qed

lemma queried_append: "queried (a @ b) = queried a @ queried b"
  by (induction a rule: queried.induct) simp_all

lemma accepted_append: "accepted env (a @ b) = accepted env a @ accepted env b"
  by (induction env a rule: accepted.induct) (simp_all split: option.splits)

lemma verdict_accepted:
  "verdict_of env s = Accepted t \<Longrightarrow>
     rtn_rank env (the (title s)) (the (infoHash s)) = Some t \<and> fetch t"
  by (auto simp: verdict_of_def split: sum.splits if_splits option.splits)

lemma verdict_rejected:
  "verdict_of env s = Rejected \<Longrightarrow>
     accepted env [RtnRank (the (title s)) (the (infoHash s))] = []"
  by (auto simp: verdict_of_def split: sum.splits if_splits option.splits)

lemma step_facts:
  assumes "check_stream env s st = (c, Inr (st1, stop))"
  shows "checked_hashes st1 = checked_hashes st @ queried c
       \<and> ranked_torrents st1 = ranked_torrents st @ accepted env c
       \<and> garbage_count st \<le> garbage_count st1
       \<and> garbage_count st1 + length (checked_hashes st)
           \<le> garbage_count st + length (checked_hashes st1)
       \<and> (stop \<longrightarrow> garbage_count st1 = 5)
       \<and> (garbage_count st1 = 5 \<longrightarrow> garbage_count st < 5 \<longrightarrow>
           garbage_count st \<le> length (checked_hashes st) \<longrightarrow> stop)"
proof (cases "truthy (infoHash s) \<and> truthy (title s)
      \<and> the (infoHash s) \<notin> set (checked_hashes st)")
  case False
  from check_stream_skip [OF False, of env] assms
  have "c = []" "st1 = st" "stop = False" by simp_all
  then show ?thesis by simp
next
  case True
  then have g: "truthy (infoHash s)" "truthy (title s)"
    "the (infoHash s) \<notin> set (checked_hashes st)" by simp_all
  note step = check_stream_step [OF g, of env]
  show ?thesis
  proof (cases "verdict_of env s")
    case (Raised e)
    with step assms show ?thesis by simp
  next
    case Unavailable
    with step assms show ?thesis
      by (auto simp: stop_check_def max_hashes_to_check_def)
  next
    case Rejected
    with step assms verdict_rejected [OF Rejected] show ?thesis
      by (auto simp: stop_check_def max_hashes_to_check_def)
  next
    case (Accepted t)
    with step assms verdict_accepted [OF Accepted] show ?thesis
      by (auto simp: stop_check_def max_hashes_to_check_def)
  qed
qed

lemma step_queried:
  assumes "check_stream env s st = (c, Inr (st1, stop))"
  shows "queried c =
     (if truthy (infoHash s) \<and> truthy (title s) \<and> the (infoHash s) \<notin> set (checked_hashes st)
      then [the (infoHash s)] else [])"
proof (cases "truthy (infoHash s) \<and> truthy (title s)
      \<and> the (infoHash s) \<notin> set (checked_hashes st)")
  case False
  from check_stream_skip [OF False, of env] assms show ?thesis using False by simp
next
  case True
  then have g: "truthy (infoHash s)" "truthy (title s)"
    "the (infoHash s) \<notin> set (checked_hashes st)" by simp_all
  from check_stream_step [OF g, of env] assms True show ?thesis
    by (cases "verdict_of env s") auto
qed

lemma rank_loop_raise:
  "check_stream env s st = (c, Inl e) \<Longrightarrow> rank_loop env (s # ss) st = (c, Inl e)"
  by simp

lemma rank_loop_break:
  "check_stream env s st = (c, Inr (st1, True)) \<Longrightarrow> rank_loop env (s # ss) st = (c, Inr st1)"
  by simp

lemma rank_loop_continue:
  "check_stream env s st = (c, Inr (st1, False)) \<Longrightarrow>
     rank_loop env (s # ss) st = (c @ fst (rank_loop env ss st1), snd (rank_loop env ss st1))"
  by (simp split: prod.splits)

lemma check_stream_result:
  obtains (raise) c e where "check_stream env s st = (c, Inl e)"
  | (break) c st1 where "check_stream env s st = (c, Inr (st1, True))"
  | (continue) c st1 where "check_stream env s st = (c, Inr (st1, False))"
proof (cases "check_stream env s st")
  case (Pair c r)
  show ?thesis
  proof (cases r)
    case (Inl e)
    with Pair raise show ?thesis by simp
  next
    case (Inr p)
    obtain st1 stop where "p = (st1, stop)" by (cases p)
    with Pair Inr break continue show ?thesis by (cases stop) simp_all
  qed
qed

lemmas step_checked = step_facts [THEN conjunct1]
lemmas step_ranked = step_facts [THEN conjunct2, THEN conjunct1]
lemmas step_garbage_mono = step_facts [THEN conjunct2, THEN conjunct2, THEN conjunct1]
lemmas step_garbage_checked =
  step_facts [THEN conjunct2, THEN conjunct2, THEN conjunct2, THEN conjunct1]
lemmas step_break =
  step_facts [THEN conjunct2, THEN conjunct2, THEN conjunct2, THEN conjunct2, THEN conjunct1,
    rule_format]
lemmas step_fifth =
  step_facts [THEN conjunct2, THEN conjunct2, THEN conjunct2, THEN conjunct2, THEN conjunct2,
    rule_format]

lemma step_invariant:
  assumes "check_stream env s st = (c, Inr (st1, False))"
    and "garbage_count st < 5" and "garbage_count st \<le> length (checked_hashes st)"
  shows "garbage_count st1 < 5 \<and> garbage_count st1 \<le> length (checked_hashes st1)"
proof -
  have "garbage_count st1 \<noteq> 5"
    using step_fifth [OF assms(1)] assms(2,3) by blast
  moreover have "garbage_count st1 \<le> length (checked_hashes st1)"
    using step_garbage_checked [OF assms(1)] assms(3) by linarith
  moreover have "garbage_count st1 \<le> Suc (garbage_count st)"
    using step_garbage_checked [OF assms(1)] step_checked [OF assms(1)]
      step_queried [OF assms(1)] by (simp split: if_splits)
  ultimately show ?thesis using assms(2) by linarith
qed

lemma rank_loop_state:
  "snd (rank_loop env ss st) = Inr st' \<Longrightarrow>
     checked_hashes st' = checked_hashes st @ queried (fst (rank_loop env ss st))
     \<and> ranked_torrents st' = ranked_torrents st @ accepted env (fst (rank_loop env ss st))"
proof (induction ss arbitrary: st)
  case Nil
  then show ?case by simp
next
  case (Cons s ss)
  show ?case
  proof (cases rule: check_stream_result [of env s st])
    case (raise c e)
    with Cons.prems show ?thesis by simp
  next
    case (break c st1)
    with Cons.prems step_checked [OF break] step_ranked [OF break] show ?thesis by simp
  next
    case (continue c st1)
    note unfold = rank_loop_continue [OF continue, of ss]
    from Cons.prems have "snd (rank_loop env ss st1) = Inr st'"
      unfolding unfold by simp
    from Cons.IH [OF this] step_checked [OF continue] step_ranked [OF continue]
    show ?thesis
      unfolding unfold by (simp add: queried_append accepted_append)
  qed
qed

lemma rank_loop_garbage:
  "garbage_count st < 5 \<Longrightarrow> garbage_count st \<le> length (checked_hashes st) \<Longrightarrow>
   snd (rank_loop env ss st) = Inr st' \<Longrightarrow>
     garbage_count st' \<le> 5 \<and> garbage_count st' \<le> length (checked_hashes st')"
proof (induction ss arbitrary: st)
  case Nil
  then show ?case by simp
next
  case (Cons s ss)
  show ?case
  proof (cases rule: check_stream_result [of env s st])
    case (raise c e)
    with Cons.prems show ?thesis by simp
  next
    case (break c st1)
    from Cons.prems(3) have e: "st' = st1"
      unfolding rank_loop_break [OF break, of ss] by simp
    have "garbage_count st1 = 5" using step_break [OF break] by simp
    moreover have "garbage_count st1 \<le> length (checked_hashes st1)"
      using step_garbage_checked [OF break] Cons.prems(2) by linarith
    ultimately show ?thesis by (simp add: e)
  next
    case (continue c st1)
    from Cons.prems(3) have r: "snd (rank_loop env ss st1) = Inr st'"
      unfolding rank_loop_continue [OF continue, of ss] by simp
    from step_invariant [OF continue Cons.prems(1,2)]
    have "garbage_count st1 < 5" "garbage_count st1 \<le> length (checked_hashes st1)"
      by simp_all
    from Cons.IH [OF this r] show ?thesis .
  qed
qed

lemma rank_loop_stops:
  "garbage_count st < 5 \<Longrightarrow> garbage_count st \<le> length (checked_hashes st) \<Longrightarrow>
   snd (rank_loop env ss st) = Inr st' \<Longrightarrow> garbage_count st' = 5 \<Longrightarrow>
     rank_loop env (ss @ later) st = rank_loop env ss st"
proof (induction ss arbitrary: st)
  case Nil
  then show ?case by simp
next
  case (Cons s ss)
  show ?case
  proof (cases rule: check_stream_result [of env s st])
    case (raise c e)
    then show ?thesis by simp
  next
    case (break c st1)
    then show ?thesis by simp
  next
    case (continue c st1)
    from Cons.prems(3) have r: "snd (rank_loop env ss st1) = Inr st'"
      unfolding rank_loop_continue [OF continue, of ss] by simp
    from step_invariant [OF continue Cons.prems(1,2)]
    have "garbage_count st1 < 5" "garbage_count st1 \<le> length (checked_hashes st1)"
      by simp_all
    from Cons.IH [OF this r Cons.prems(4)]
    have "rank_loop env (ss @ later) st1 = rank_loop env ss st1" .
    then show ?thesis
      using rank_loop_continue [OF continue, of ss]
        rank_loop_continue [OF continue, of "ss @ later"]
      by (simp only: append_Cons)
  qed
qed

lemma checkable_distinct:
  "distinct seen \<Longrightarrow> distinct (seen @ map (the \<circ> infoHash) (checkable ss seen))"
proof (induction ss arbitrary: seen)
  case Nil
  then show ?case by simp
next
  case (Cons s ss)
  show ?case
  proof (cases "truthy (infoHash s) \<and> truthy (title s) \<and> the (infoHash s) \<notin> set seen")
    case True
    then have "distinct (seen @ [the (infoHash s)])" using Cons.prems by simp
    from Cons.IH [OF this] True show ?thesis by simp
  next
    case False
    with Cons show ?thesis by auto
  qed
qed

lemma rank_loop_checkable:
  "snd (rank_loop env ss st) = Inr st' \<Longrightarrow>
     (\<exists>k. queried (fst (rank_loop env ss st))
            = map (the \<circ> infoHash) (take k (checkable ss (checked_hashes st))))
     \<and> (garbage_count st' \<noteq> 5 \<longrightarrow>
          queried (fst (rank_loop env ss st))
            = map (the \<circ> infoHash) (checkable ss (checked_hashes st)))"
proof (induction ss arbitrary: st)
  case Nil
  then show ?case by simp
next
  case (Cons s ss)
  let ?g = "truthy (infoHash s) \<and> truthy (title s) \<and> the (infoHash s) \<notin> set (checked_hashes st)"
  show ?case
  proof (cases rule: check_stream_result [of env s st])
    case (raise c e)
    with Cons.prems show ?thesis by simp
  next
    case (break c st1)
    from Cons.prems have e: "st' = st1"
      unfolding rank_loop_break [OF break, of ss] by simp
    have five: "garbage_count st' = 5" using step_break [OF break] e by simp
    have g: ?g
    proof (rule ccontr)
      assume "\<not> ?g"
      from check_stream_skip [OF this, of env] break show False by simp
    qed
    then have "queried c = map (the \<circ> infoHash) (take 1 (checkable (s # ss) (checked_hashes st)))"
      using step_queried [OF break] by simp
    then have "\<exists>k. queried c
        = map (the \<circ> infoHash) (take k (checkable (s # ss) (checked_hashes st)))" ..
    with five show ?thesis
      unfolding rank_loop_break [OF break, of ss] fst_conv by blast
  next
    case (continue c st1)
    note unfold = rank_loop_continue [OF continue, of ss]
    from Cons.prems have r: "snd (rank_loop env ss st1) = Inr st'"
      unfolding unfold by simp
    note ih = Cons.IH [OF r]
    note ch = step_checked [OF continue]
    note q = step_queried [OF continue]
    show ?thesis
    proof (cases ?g)
      case True
      with q ch have c1: "checked_hashes st1 = checked_hashes st @ [the (infoHash s)]"
        and q1: "queried c = [the (infoHash s)]" by simp_all
      from True have ck: "checkable (s # ss) (checked_hashes st)
          = s # checkable ss (checked_hashes st @ [the (infoHash s)])" by simp
      from ih obtain k where
        k: "queried (fst (rank_loop env ss st1))
              = map (the \<circ> infoHash) (take k (checkable ss (checked_hashes st1)))" by blast
      have "queried (fst (rank_loop env (s # ss) st))
              = map (the \<circ> infoHash) (take (Suc k) (checkable (s # ss) (checked_hashes st)))"
        unfolding unfold ck using k c1 q1 by (simp add: queried_append)
      moreover have "garbage_count st' \<noteq> 5 \<longrightarrow>
          queried (fst (rank_loop env (s # ss) st))
            = map (the \<circ> infoHash) (checkable (s # ss) (checked_hashes st))"
        unfolding unfold ck using ih c1 q1 by (simp add: queried_append)
      ultimately show ?thesis by blast
    next
      case False
      with q ch have c1: "checked_hashes st1 = checked_hashes st"
        and q1: "queried c = []" by simp_all
      from False have ck: "checkable (s # ss) (checked_hashes st)
          = checkable ss (checked_hashes st)" by auto
      from ih obtain k where
        k: "queried (fst (rank_loop env ss st1))
              = map (the \<circ> infoHash) (take k (checkable ss (checked_hashes st1)))" by blast
      have "queried (fst (rank_loop env (s # ss) st))
              = map (the \<circ> infoHash) (take k (checkable (s # ss) (checked_hashes st)))"
        unfolding unfold ck using k c1 q1 by (simp add: queried_append)
      moreover have "garbage_count st' \<noteq> 5 \<longrightarrow>
          queried (fst (rank_loop env (s # ss) st))
            = map (the \<circ> infoHash) (checkable (s # ss) (checked_hashes st))"
        unfolding unfold ck using ih c1 q1 by (simp add: queried_append)
      ultimately show ?thesis by blast
    qed
  qed
qed

lemma all_rejected_stops:
  assumes "garbage_count st = length (checked_hashes st)"
    and "length (checked_hashes st) < 5" and "ranked_torrents st = []"
    and "\<forall>s \<in> set (take (5 - length (checked_hashes st)) (checkable ss (checked_hashes st))).
           verdict_of env s = Rejected"
  shows "\<exists>st'. snd (rank_loop env ss st) = Inr st' \<and> ranked_torrents st' = []
     \<and> queried (fst (rank_loop env ss st))
         = map (the \<circ> infoHash)
             (take (5 - length (checked_hashes st)) (checkable ss (checked_hashes st)))"
  using assms
proof (induction ss arbitrary: st)
  case Nil
  then show ?case by simp
next
  case (Cons s ss)
  let ?g = "truthy (infoHash s) \<and> truthy (title s) \<and> the (infoHash s) \<notin> set (checked_hashes st)"
  let ?n = "length (checked_hashes st)"
  show ?case
  proof (cases ?g)
    case False
    from check_stream_skip [OF False, of env]
    have u: "rank_loop env (s # ss) st = (fst (rank_loop env ss st), snd (rank_loop env ss st))"
      by (simp split: prod.splits)
    from False have k: "checkable (s # ss) (checked_hashes st) = checkable ss (checked_hashes st)"
      by auto
    from Cons.IH [OF Cons.prems(1,2,3)] Cons.prems(4) k show ?thesis
      unfolding u by simp
  next
    case True
    then have g: "truthy (infoHash s)" "truthy (title s)"
      "the (infoHash s) \<notin> set (checked_hashes st)" by simp_all
    let ?h = "the (infoHash s)"
    let ?st2 = "st\<lparr>checked_hashes := checked_hashes st @ [?h],
                    garbage_count := garbage_count st + 1\<rparr>"
    from True have k: "checkable (s # ss) (checked_hashes st)
        = s # checkable ss (checked_hashes st @ [?h])" by simp
    from Cons.prems(2) have t: "5 - ?n = Suc (4 - ?n)" by arith
    have tk: "take (5 - ?n) (checkable (s # ss) (checked_hashes st))
        = s # take (4 - ?n) (checkable ss (checked_hashes st @ [?h]))"
      unfolding k t by simp
    from Cons.prems(4) have rej: "verdict_of env s = Rejected"
      and rest: "\<forall>x \<in> set (take (4 - ?n) (checkable ss (checked_hashes st @ [?h]))).
           verdict_of env x = Rejected"
      unfolding tk by simp_all
    have step: "check_stream env s st =
        ([InstantAvailability [?h], RtnRank (the (title s)) ?h], Inr (stop_check ?st2))"
      using check_stream_step [OF g, of env] rej by simp
    show ?thesis
    proof (cases "?n = 4")
      case four: True
      with Cons.prems(1) have "stop_check ?st2 = (?st2, True)"
        by (simp add: stop_check_def max_hashes_to_check_def)
      with step have "rank_loop env (s # ss) st =
          ([InstantAvailability [?h], RtnRank (the (title s)) ?h], Inr ?st2)"
        by simp
      then show ?thesis using Cons.prems(3) four tk by simp
    next
      case False
      with Cons.prems(1,2) have "stop_check ?st2 = (?st2, False)"
        by (simp add: stop_check_def max_hashes_to_check_def)
      with step have u: "rank_loop env (s # ss) st =
          ([InstantAvailability [?h], RtnRank (the (title s)) ?h] @ fst (rank_loop env ss ?st2),
           snd (rank_loop env ss ?st2))"
        by (simp split: prod.splits)
      have i1: "garbage_count ?st2 = length (checked_hashes ?st2)"
        using Cons.prems(1) by simp
      have i2: "length (checked_hashes ?st2) < 5" using Cons.prems(2) False by simp
      have i3: "ranked_torrents ?st2 = []" using Cons.prems(3) by simp
      have e: "5 - length (checked_hashes ?st2) = 4 - ?n" by simp
      have i4: "\<forall>x \<in> set (take (5 - length (checked_hashes ?st2))
                    (checkable ss (checked_hashes ?st2))). verdict_of env x = Rejected"
        unfolding e using rest by simp
      from Cons.IH [OF i1 i2 i3 i4] show ?thesis
        unfolding u e tk by simp
    qed
  qed
qed

lemma step_raised:
  assumes "check_stream env s st = (c, Inl e)"
  shows "verdict_of env s = Raised e
       \<and> truthy (infoHash s) \<and> truthy (title s) \<and> the (infoHash s) \<notin> set (checked_hashes st)"
proof (cases "truthy (infoHash s) \<and> truthy (title s)
      \<and> the (infoHash s) \<notin> set (checked_hashes st)")
  case False
  from check_stream_skip [OF False, of env] assms show ?thesis by simp
next
  case True
  then have g: "truthy (infoHash s)" "truthy (title s)"
    "the (infoHash s) \<notin> set (checked_hashes st)" by simp_all
  from check_stream_step [OF g, of env] assms True show ?thesis
    by (cases "verdict_of env s") (auto simp: stop_check_def)
qed

lemma step_rejections:
  assumes "check_stream env s st = (c, Inr (st1, stop))"
  shows "garbage_count st1 = garbage_count st +
     (if truthy (infoHash s) \<and> truthy (title s) \<and> the (infoHash s) \<notin> set (checked_hashes st)
         \<and> verdict_of env s = Rejected then 1 else 0)"
proof (cases "truthy (infoHash s) \<and> truthy (title s)
      \<and> the (infoHash s) \<notin> set (checked_hashes st)")
  case False
  from check_stream_skip [OF False, of env] assms False show ?thesis by auto
next
  case True
  then have g: "truthy (infoHash s)" "truthy (title s)"
    "the (infoHash s) \<notin> set (checked_hashes st)" by simp_all
  from check_stream_step [OF g, of env] assms True show ?thesis
    by (cases "verdict_of env s") (auto simp: stop_check_def)
qed

lemma rank_loop_rejections:
  "snd (rank_loop env ss st) = Inr st' \<Longrightarrow>
     \<exists>k. queried (fst (rank_loop env ss st))
            = map (the \<circ> infoHash) (take k (checkable ss (checked_hashes st)))
        \<and> garbage_count st' = garbage_count st
            + length (filter (\<lambda>s. verdict_of env s = Rejected)
                        (take k (checkable ss (checked_hashes st))))
        \<and> (garbage_count st' \<noteq> 5 \<longrightarrow> length (checkable ss (checked_hashes st)) \<le> k)"
proof (induction ss arbitrary: st)
  case Nil
  then show ?case by simp
next
  case (Cons s ss)
  let ?g = "truthy (infoHash s) \<and> truthy (title s) \<and> the (infoHash s) \<notin> set (checked_hashes st)"
  let ?rej = "\<lambda>s. verdict_of env s = Rejected"
  show ?case
  proof (cases rule: check_stream_result [of env s st])
    case (raise c e)
    with Cons.prems show ?thesis by simp
  next
    case (break c st1)
    from Cons.prems have e: "st' = st1"
      unfolding rank_loop_break [OF break, of ss] by simp
    have five: "garbage_count st' = 5" using step_break [OF break] e by simp
    have g: ?g
    proof (rule ccontr)
      assume "\<not> ?g"
      from check_stream_skip [OF this, of env] break show False by simp
    qed
    then have ck: "checkable (s # ss) (checked_hashes st)
          = s # checkable ss (checked_hashes st @ [the (infoHash s)])" by simp
    have q: "queried c = map (the \<circ> infoHash) (take 1 (checkable (s # ss) (checked_hashes st)))"
      unfolding ck using step_queried [OF break] g by simp
    have n: "garbage_count st' = garbage_count st
            + length (filter ?rej (take 1 (checkable (s # ss) (checked_hashes st))))"
      unfolding ck e using step_rejections [OF break] g by simp
    from q n five show ?thesis
      unfolding rank_loop_break [OF break, of ss] fst_conv by blast
  next
    case (continue c st1)
    note unfold = rank_loop_continue [OF continue, of ss]
    from Cons.prems have r: "snd (rank_loop env ss st1) = Inr st'"
      unfolding unfold by simp
    from Cons.IH [OF r] obtain k where
      k: "queried (fst (rank_loop env ss st1))
              = map (the \<circ> infoHash) (take k (checkable ss (checked_hashes st1)))"
      and n: "garbage_count st' = garbage_count st1
            + length (filter ?rej (take k (checkable ss (checked_hashes st1))))"
      and f: "garbage_count st' \<noteq> 5 \<longrightarrow> length (checkable ss (checked_hashes st1)) \<le> k"
      by blast
    note ch = step_checked [OF continue]
    note q = step_queried [OF continue]
    note rj = step_rejections [OF continue]
    show ?thesis
    proof (cases ?g)
      case True
      with q ch have c1: "checked_hashes st1 = checked_hashes st @ [the (infoHash s)]"
        and q1: "queried c = [the (infoHash s)]" by simp_all
      from True have ck: "checkable (s # ss) (checked_hashes st)
          = s # checkable ss (checked_hashes st @ [the (infoHash s)])" by simp
      have a: "queried (fst (rank_loop env (s # ss) st))
              = map (the \<circ> infoHash) (take (Suc k) (checkable (s # ss) (checked_hashes st)))"
        unfolding unfold ck using k c1 q1 by (simp add: queried_append)
      have b: "garbage_count st' = garbage_count st
            + length (filter ?rej (take (Suc k) (checkable (s # ss) (checked_hashes st))))"
        unfolding ck using n rj True c1 by simp
      have d: "garbage_count st' \<noteq> 5 \<longrightarrow>
            length (checkable (s # ss) (checked_hashes st)) \<le> Suc k"
        unfolding ck using f c1 by simp
      from a b d show ?thesis by blast
    next
      case False
      with q ch have c1: "checked_hashes st1 = checked_hashes st"
        and q1: "queried c = []" by simp_all
      from False have ck: "checkable (s # ss) (checked_hashes st)
          = checkable ss (checked_hashes st)" by auto
      have a: "queried (fst (rank_loop env (s # ss) st))
              = map (the \<circ> infoHash) (take k (checkable (s # ss) (checked_hashes st)))"
        unfolding unfold ck using k c1 q1 by (simp add: queried_append)
      have b: "garbage_count st' = garbage_count st
            + length (filter ?rej (take k (checkable (s # ss) (checked_hashes st))))"
        unfolding ck using n rj False c1 by auto
      have d: "garbage_count st' \<noteq> 5 \<longrightarrow>
            length (checkable (s # ss) (checked_hashes st)) \<le> k"
        unfolding ck using f c1 by simp
      from a b d show ?thesis by blast
    qed
  qed
qed

lemma rank_loop_returns:
  "\<forall>s \<in> set (checkable ss (checked_hashes st)). \<forall>e. verdict_of env s \<noteq> Raised e \<Longrightarrow>
     \<exists>st'. snd (rank_loop env ss st) = Inr st'"
proof (induction ss arbitrary: st)
  case Nil
  then show ?case by simp
next
  case (Cons s ss)
  let ?g = "truthy (infoHash s) \<and> truthy (title s) \<and> the (infoHash s) \<notin> set (checked_hashes st)"
  show ?case
  proof (cases rule: check_stream_result [of env s st])
    case (raise c e)
    from step_raised [OF raise] have g: ?g and v: "verdict_of env s = Raised e" by simp_all
    from g have "s \<in> set (checkable (s # ss) (checked_hashes st))" by simp
    with Cons.prems v show ?thesis by blast
  next
    case (break c st1)
    then show ?thesis by simp
  next
    case (continue c st1)
    note unfold = rank_loop_continue [OF continue, of ss]
    note ch = step_checked [OF continue]
    note q = step_queried [OF continue]
    have "set (checkable ss (checked_hashes st1)) \<subseteq> set (checkable (s # ss) (checked_hashes st))"
    proof (cases ?g)
      case True
      with q ch have "checked_hashes st1 = checked_hashes st @ [the (infoHash s)]" by simp
      moreover from True have "checkable (s # ss) (checked_hashes st)
          = s # checkable ss (checked_hashes st @ [the (infoHash s)])" by simp
      ultimately show ?thesis by auto
    next
      case False
      with q ch have "checked_hashes st1 = checked_hashes st" by simp
      moreover from False have "checkable (s # ss) (checked_hashes st)
          = checkable ss (checked_hashes st)" by auto
      ultimately show ?thesis by simp
    qed
    with Cons.prems
    have "\<forall>x \<in> set (checkable ss (checked_hashes st1)). \<forall>e. verdict_of env x \<noteq> Raised e"
      by blast
    from Cons.IH [OF this] show ?thesis unfolding unfold by simp
  qed
qed

section \<open>How many hashes the poll path checks\<close>

lemma queried_none:
  "(\<forall>c \<in> set cs. \<forall>hs. c \<noteq> InstantAvailability hs) \<Longrightarrow> queried cs = []"
  by (induction cs rule: queried.induct) simp_all

lemma poll_after_discovery:
  assumes "get_imdb_id_from_trakt env (tmdbId request) (mediaType request)
             = (c1, Inr (Some imdb_id))"
    and "imdb_id \<noteq> []"
    and "query_torrentio env imdb_id (mediaType request) = (c2, r)"
    and "found_streams r \<noteq> []"
    and "rank_loop env (found_streams r) init_state = (c3, Inr st)"
  shows "process_overseerr_request env request =
           (c1 @ c2 @ c3 @ fst (commit_best env request (ranked_torrents st)),
            snd (commit_best env request (ranked_torrents st)))"
  using assms
  by (simp add: process_overseerr_request_def truthy_def split: prod.splits)

lemma commit_best_nothing: "commit_best env request [] = ([], NoValidTorrents)"
  by (simp add: commit_best_def top_torrents_def sorted_torrents_def)

text \<open>
  Claim C2 as stated fails: with six streams of distinct hashes, all cached and all
  accepted by ranking, the loop queries the availability of all six and ranks all six.
\<close>

theorem six_hashes_checked_counterexample:
  "queried (fst (rank_loop env_ok six_streams init_state))
     = [''h1'', ''h2'', ''h3'', ''h4'', ''h5'', ''h6'']
   \<and> map rank (accepted env_ok (fst (rank_loop env_ok six_streams init_state)))
     = [10, 30, 20, 5, 25, 25]"
  by (simp add: model_defs sample_defs)

text \<open>
  Claim C2, as the code has it. The streams that pass the guard of line 118 are taken in
  order, and what ranking says of each is \<open>verdict_of\<close>. When the loop returns, the hashes
  it checked are those of an initial segment of these streams (exactly the hashes of its
  availability queries, pairwise distinct), and its garbage counter is the number of
  streams of that segment that ranking rejected: an uncached or an accepted hash does
  not count. The counter never exceeds 5. As long as it is below 5 the segment is all of
  the streams; in particular, when fewer than five of all the streams are rejected by
  ranking, every one of them is checked, however many they are. Once the counter is 5
  the loop has stopped: whatever streams follow, the run is the same. And the loop does
  return whenever no availability call raises.
\<close>

theorem ranking_loop_bound:
  "(\<forall>st. snd (rank_loop env ss init_state) = Inr st \<longrightarrow>
      (\<exists>k. checked_hashes st = map (the \<circ> infoHash) (take k (checkable ss []))
          \<and> garbage_count st
              = length (filter (\<lambda>s. verdict_of env s = Rejected) (take k (checkable ss [])))
          \<and> (garbage_count st < 5 \<longrightarrow> length (checkable ss []) \<le> k))
      \<and> garbage_count st \<le> 5
      \<and> checked_hashes st = queried (fst (rank_loop env ss init_state))
      \<and> distinct (checked_hashes st)
      \<and> (length (filter (\<lambda>s. verdict_of env s = Rejected) (checkable ss [])) < 5 \<longrightarrow>
            checked_hashes st = map (the \<circ> infoHash) (checkable ss []))
      \<and> (garbage_count st = 5 \<longrightarrow>
            (\<forall>later. rank_loop env (ss @ later) init_state = rank_loop env ss init_state)))
   \<and> ((\<forall>s \<in> set (checkable ss []). \<forall>e. verdict_of env s \<noteq> Raised e) \<longrightarrow>
        (\<exists>st. snd (rank_loop env ss init_state) = Inr st))"
proof -
  let ?cs = "checkable ss []"
  let ?rej = "\<lambda>s. verdict_of env s = Rejected"
  have i: "garbage_count init_state < 5"
    "garbage_count init_state \<le> length (checked_hashes init_state)"
    by (simp_all add: init_state_def)
  have i0: "checked_hashes init_state = []" "garbage_count init_state = 0"
    by (simp_all add: init_state_def)
  have main: "(\<exists>k. checked_hashes st = map (the \<circ> infoHash) (take k ?cs)
          \<and> garbage_count st = length (filter ?rej (take k ?cs))
          \<and> (garbage_count st < 5 \<longrightarrow> length ?cs \<le> k))
      \<and> garbage_count st \<le> 5
      \<and> checked_hashes st = queried (fst (rank_loop env ss init_state))
      \<and> distinct (checked_hashes st)
      \<and> (length (filter ?rej ?cs) < 5 \<longrightarrow> checked_hashes st = map (the \<circ> infoHash) ?cs)
      \<and> (garbage_count st = 5 \<longrightarrow>
            (\<forall>later. rank_loop env (ss @ later) init_state = rank_loop env ss init_state))"
    if r: "snd (rank_loop env ss init_state) = Inr st" for st
  proof -
    have g: "garbage_count st \<le> 5"
      using rank_loop_garbage [OF i r] by (rule conjunct1)
    have q: "checked_hashes st = queried (fst (rank_loop env ss init_state))"
      using rank_loop_state [OF r, THEN conjunct1] by (simp only: i0 append_Nil)
    from rank_loop_rejections [OF r] obtain k where
      k0: "queried (fst (rank_loop env ss init_state))
            = map (the \<circ> infoHash) (take k (checkable ss (checked_hashes init_state)))"
      and n0: "garbage_count st = garbage_count init_state
            + length (filter ?rej (take k (checkable ss (checked_hashes init_state))))"
      and f0: "garbage_count st \<noteq> 5 \<longrightarrow>
            length (checkable ss (checked_hashes init_state)) \<le> k"
      by (elim exE conjE)
    have k: "checked_hashes st = map (the \<circ> infoHash) (take k ?cs)"
      using k0 by (simp only: q i0)
    have n: "garbage_count st = length (filter ?rej (take k ?cs))"
      using n0 by (simp only: i0 add_0)
    have f: "garbage_count st < 5 \<longrightarrow> length ?cs \<le> k"
    proof
      assume "garbage_count st < 5"
      then have "garbage_count st \<noteq> 5" by simp
      with f0 have "length (checkable ss (checked_hashes init_state)) \<le> k" by blast
      then show "length ?cs \<le> k" by (simp only: i0)
    qed
    have first: "\<exists>k. checked_hashes st = map (the \<circ> infoHash) (take k ?cs)
          \<and> garbage_count st = length (filter ?rej (take k ?cs))
          \<and> (garbage_count st < 5 \<longrightarrow> length ?cs \<le> k)"
      using k n f by (intro exI [of _ k] conjI)
    have d0: "distinct (map (the \<circ> infoHash) ?cs)"
      using checkable_distinct [of "[]" ss] by simp
    have "distinct (take k (map (the \<circ> infoHash) ?cs))"
      using d0 by (rule distinct_take)
    then have "distinct (map (the \<circ> infoHash) (take k ?cs))"
      by (simp only: take_map)
    then have d: "distinct (checked_hashes st)"
      by (simp only: k)
    have le: "length (filter ?rej (take k ?cs)) \<le> length (filter ?rej ?cs)"
    proof -
      have "filter ?rej (take k ?cs @ drop k ?cs)
              = filter ?rej (take k ?cs) @ filter ?rej (drop k ?cs)"
        by (rule filter_append)
      then have "length (filter ?rej ?cs)
              = length (filter ?rej (take k ?cs)) + length (filter ?rej (drop k ?cs))"
        by (simp only: append_take_drop_id length_append)
      then show ?thesis by linarith
    qed
    have few: "length (filter ?rej ?cs) < 5 \<longrightarrow>
        checked_hashes st = map (the \<circ> infoHash) ?cs"
    proof
      assume "length (filter ?rej ?cs) < 5"
      with le n have "garbage_count st < 5" by linarith
      with f have "length ?cs \<le> k" by blast
      then have "take k ?cs = ?cs" by (rule take_all)
      with k show "checked_hashes st = map (the \<circ> infoHash) ?cs" by (simp only:)
    qed
    have stops: "garbage_count st = 5 \<longrightarrow>
            (\<forall>later. rank_loop env (ss @ later) init_state = rank_loop env ss init_state)"
    proof (intro impI allI)
      fix later assume "garbage_count st = 5"
      from rank_loop_stops [OF i r this]
      show "rank_loop env (ss @ later) init_state = rank_loop env ss init_state" .
    qed
    from first g q d few stops show ?thesis by (intro conjI)
  qed
  have total: "(\<forall>s \<in> set ?cs. \<forall>e. verdict_of env s \<noteq> Raised e) \<longrightarrow>
        (\<exists>st. snd (rank_loop env ss init_state) = Inr st)"
  proof
    assume "\<forall>s \<in> set ?cs. \<forall>e. verdict_of env s \<noteq> Raised e"
    then have "\<forall>s \<in> set (checkable ss (checked_hashes init_state)).
               \<forall>e. verdict_of env s \<noteq> Raised e"
      by (simp only: i0)
    from rank_loop_returns [OF this] show "\<exists>st. snd (rank_loop env ss init_state) = Inr st" .
  qed
  show ?thesis
  proof (rule conjI)
    show "\<forall>st. snd (rank_loop env ss init_state) = Inr st \<longrightarrow>
      (\<exists>k. checked_hashes st = map (the \<circ> infoHash) (take k ?cs)
          \<and> garbage_count st = length (filter ?rej (take k ?cs))
          \<and> (garbage_count st < 5 \<longrightarrow> length ?cs \<le> k))
      \<and> garbage_count st \<le> 5
      \<and> checked_hashes st = queried (fst (rank_loop env ss init_state))
      \<and> distinct (checked_hashes st)
      \<and> (length (filter ?rej ?cs) < 5 \<longrightarrow> checked_hashes st = map (the \<circ> infoHash) ?cs)
      \<and> (garbage_count st = 5 \<longrightarrow>
            (\<forall>later. rank_loop env (ss @ later) init_state = rank_loop env ss init_state))"
      by (intro allI impI) (rule main)
    show "(\<forall>s \<in> set ?cs. \<forall>e. verdict_of env s \<noteq> Raised e) \<longrightarrow>
        (\<exists>st. snd (rank_loop env ss init_state) = Inr st)"
      by (rule total)
  qed
qed

theorem ranking_loop_bound_witness:
  "snd (rank_loop env_garbage six_streams init_state)
     = Inr \<lparr>ranked_torrents = [],
            checked_hashes = [''h1'', ''h2'', ''h3'', ''h4'', ''h5''],
            garbage_count = 5\<rparr>
   \<and> rank_loop env_garbage (six_streams @ five_streams) init_state
     = rank_loop env_garbage six_streams init_state
   \<and> snd (rank_loop (env_ok\<lparr>rd_instant := \<lambda>hs. Resp 503 None\<rparr>) six_streams init_state)
     = Inr \<lparr>ranked_torrents = [],
            checked_hashes = [''h1'', ''h2'', ''h3'', ''h4'', ''h5'', ''h6''],
            garbage_count = 0\<rparr>
   \<and> length (filter (\<lambda>s. verdict_of (env_ok\<lparr>rd_instant := \<lambda>hs. Resp 503 None\<rparr>) s = Rejected)
        (checkable six_streams [])) = 0"
proof -
  let ?st = "\<lparr>ranked_torrents = [],
            checked_hashes = [''h1'', ''h2'', ''h3'', ''h4'', ''h5''],
            garbage_count = 5\<rparr>"
  let ?env = "env_ok\<lparr>rd_instant := \<lambda>hs. Resp 503 None\<rparr>"
  let ?st6 = "\<lparr>ranked_torrents = [],
            checked_hashes = [''h1'', ''h2'', ''h3'', ''h4'', ''h5'', ''h6''],
            garbage_count = 0\<rparr>"
  have r: "snd (rank_loop env_garbage six_streams init_state) = Inr ?st"
    by (simp add: model_defs sample_defs)
  have five: "garbage_count ?st = 5" by simp
  note t = ranking_loop_bound [of env_garbage six_streams, THEN conjunct1, rule_format, OF r]
  note stops = t [THEN conjunct2, THEN conjunct2, THEN conjunct2, THEN conjunct2,
      THEN conjunct2, rule_format, OF five, of five_streams]
  have ck: "checkable six_streams [] = six_streams"
    by (simp add: six_streams_def five_streams_def truthy_def)
  have none: "length (filter (\<lambda>s. verdict_of ?env s = Rejected) (checkable six_streams [])) = 0"
    unfolding ck by (simp add: verdict_of_def model_defs sample_defs)
  have r6: "snd (rank_loop ?env six_streams init_state) = Inr ?st6"
    by (simp add: model_defs sample_defs)
  from r stops r6 none show ?thesis by (intro conjI)
qed

text \<open>
  Claim C3. After a successful resolution and discovery, if the first five streams that
  pass the guard of line 118 (those with hash and title and a hash not seen before) are
  all rejected by ranking, then the poll path queries the availability of exactly those
  five hashes and of no sixth, ends with "No valid torrents found after ranking", and
  makes no commit call and no acknowledgement call.
\<close>

theorem all_rejected_early_stop:
  assumes "get_imdb_id_from_trakt env (tmdbId request) (mediaType request)
             = (c1, Inr (Some imdb_id))"
    and "imdb_id \<noteq> []"
    and "found_streams (snd (query_torrentio env imdb_id (mediaType request))) = ss"
    and "5 \<le> length (checkable ss [])"
    and "\<forall>s \<in> set (take 5 (checkable ss [])). verdict_of env s = Rejected"
  shows "queried (fst (process_overseerr_request env request))
           = map (the \<circ> infoHash) (take 5 (checkable ss []))
       \<and> length (queried (fst (process_overseerr_request env request))) = 5
       \<and> snd (process_overseerr_request env request) = NoValidTorrents
       \<and> (\<forall>h n. AddMagnet h n \<notin> set (fst (process_overseerr_request env request)))
       \<and> (\<forall>m. MarkAvailable m \<notin> set (fst (process_overseerr_request env request)))"
proof -
  obtain c2 r where d: "query_torrentio env imdb_id (mediaType request) = (c2, r)"
    by (cases "query_torrentio env imdb_id (mediaType request)")
  with assms(3) have fs: "found_streams r = ss" by simp
  from assms(4) have ne: "found_streams r \<noteq> []" unfolding fs by auto
  have i: "garbage_count init_state = length (checked_hashes init_state)"
    "length (checked_hashes init_state) < 5" "ranked_torrents init_state = []"
    "\<forall>s \<in> set (take (5 - length (checked_hashes init_state))
              (checkable ss (checked_hashes init_state))). verdict_of env s = Rejected"
    using assms(5) by (simp_all add: init_state_def)
  from all_rejected_stops [OF i] obtain st where
    st: "snd (rank_loop env ss init_state) = Inr st" and none: "ranked_torrents st = []"
    and q: "queried (fst (rank_loop env ss init_state))
              = map (the \<circ> infoHash) (take 5 (checkable ss []))"
    by (auto simp: init_state_def)
  obtain c3 where l: "rank_loop env (found_streams r) init_state = (c3, Inr st)"
    using st unfolding fs by (cases "rank_loop env ss init_state") simp
  have p: "process_overseerr_request env request = (c1 @ c2 @ c3, NoValidTorrents)"
    using poll_after_discovery [OF assms(1,2) d ne l] none
    by (simp add: commit_best_nothing)
  have c1: "set c1 \<subseteq> {TraktSearch (tmdbId request) (trakt_type (mediaType request))}"
    using get_imdb_calls [of env "tmdbId request" "mediaType request"] assms(1) by simp
  have c2: "set c2 \<subseteq> {TorrentioQuery imdb_id (torrentio_kind (mediaType request))}"
    using query_torrentio_calls [of env imdb_id "mediaType request"] d by simp
  have c3: "\<forall>c \<in> set c3. (\<exists>h. c = InstantAvailability [h]) \<or> (\<exists>t h. c = RtnRank t h)"
    using rank_loop_calls [of _ env "found_streams r" init_state] l by simp
  have q1: "queried c1 = []" using c1 by (intro queried_none) auto
  have q2: "queried c2 = []" using c2 by (intro queried_none) auto
  have q3: "queried c3 = map (the \<circ> infoHash) (take 5 (checkable ss []))"
    using q l unfolding fs by simp
  have a: "queried (fst (process_overseerr_request env request))
           = map (the \<circ> infoHash) (take 5 (checkable ss []))"
    unfolding p by (simp add: queried_append q1 q2 q3)
  have b: "length (queried (fst (process_overseerr_request env request))) = 5"
    unfolding a using assms(4) by simp
  have c: "snd (process_overseerr_request env request) = NoValidTorrents"
    unfolding p by simp
  have e: "\<forall>h n. AddMagnet h n \<notin> set (fst (process_overseerr_request env request))"
    unfolding p using c1 c2 c3 by auto
  have f: "\<forall>m. MarkAvailable m \<notin> set (fst (process_overseerr_request env request))"
    unfolding p using c1 c2 c3 by auto
  from a b c e f show ?thesis by (intro conjI)
qed

theorem all_rejected_early_stop_witness:
  "get_imdb_id_from_trakt env_garbage (tmdbId movie_request) (mediaType movie_request)
     = ([TraktSearch 603 ''movie''], Inr (Some ''tt2''))
   \<and> found_streams (snd (query_torrentio env_garbage ''tt2'' (mediaType movie_request)))
     = six_streams
   \<and> length (checkable six_streams []) = 6
   \<and> map (verdict_of env_garbage) (take 5 (checkable six_streams []))
     = [Rejected, Rejected, Rejected, Rejected, Rejected]
   \<and> queried (fst (process_overseerr_request env_garbage movie_request))
     = [''h1'', ''h2'', ''h3'', ''h4'', ''h5'']
   \<and> snd (process_overseerr_request env_garbage movie_request) = NoValidTorrents"
proof -
  have a1: "get_imdb_id_from_trakt env_garbage (tmdbId movie_request) (mediaType movie_request)
     = ([TraktSearch 603 ''movie''], Inr (Some ''tt2''))"
    by (simp add: model_defs sample_defs)
  have a2: "''tt2'' \<noteq> []" by simp
  have a3: "found_streams (snd (query_torrentio env_garbage ''tt2'' (mediaType movie_request)))
     = six_streams"
    by (simp add: model_defs sample_defs)
  have ck: "checkable six_streams [] = six_streams"
    by (simp add: six_streams_def five_streams_def truthy_def)
  have a4: "5 \<le> length (checkable six_streams [])"
    unfolding ck by (simp add: six_streams_def five_streams_def)
  have a5: "\<forall>s \<in> set (take 5 (checkable six_streams [])). verdict_of env_garbage s = Rejected"
    unfolding ck by (simp add: verdict_of_def model_defs sample_defs)
  note t = all_rejected_early_stop [OF a1 a2 a3 a4 a5]
  have q: "queried (fst (process_overseerr_request env_garbage movie_request))
     = map (the \<circ> infoHash) (take 5 (checkable six_streams []))"
    by (rule t [THEN conjunct1])
  have q': "queried (fst (process_overseerr_request env_garbage movie_request))
     = [''h1'', ''h2'', ''h3'', ''h4'', ''h5'']"
    unfolding q ck by (simp add: six_streams_def five_streams_def)
  have o: "snd (process_overseerr_request env_garbage movie_request) = NoValidTorrents"
    by (rule t [THEN conjunct2, THEN conjunct2, THEN conjunct1])
  have l: "length (checkable six_streams []) = 6"
    unfolding ck by (simp add: six_streams_def five_streams_def)
  have v: "map (verdict_of env_garbage) (take 5 (checkable six_streams []))
     = [Rejected, Rejected, Rejected, Rejected, Rejected]"
    unfolding ck by (simp add: verdict_of_def model_defs sample_defs)
  from a1 a3 l v q' o show ?thesis by (intro conjI)
qed

section \<open>Best-of-batch selection\<close>

lemma hd_insort_key:
  "ys \<noteq> [] \<Longrightarrow> hd (insort_key f x ys) = (if f x \<le> f (hd ys) then x else hd ys)"
  by (cases ys) simp_all

lemma hd_sort_key_first_min:
  fixes f :: "'a \<Rightarrow> 'b::linorder"
  shows "xs \<noteq> [] \<Longrightarrow>
     List.find (\<lambda>t. \<forall>u \<in> set xs. f t \<le> f u) xs = Some (hd (sort_key f xs))"
proof (induction xs)
  case Nil
  then show ?case by simp
next
  case (Cons x xs)
  show ?case
  proof (cases "xs = []")
    case True
    then show ?thesis by simp
  next
    case False
    let ?ys = "sort_key f xs"
    from Cons.IH [OF False]
    have ih: "List.find (\<lambda>t. \<forall>u \<in> set xs. f t \<le> f u) xs = Some (hd ?ys)" .
    then have hin: "hd ?ys \<in> set xs" and hmin: "\<forall>u \<in> set xs. f (hd ?ys) \<le> f u"
      by (auto simp: find_Some_iff)
    have ne: "?ys \<noteq> []" using False by (metis length_0_conv length_sort)
    note hd_ins = hd_insort_key [OF ne, of f x]
    show ?thesis
    proof (cases "f x \<le> f (hd ?ys)")
      case True
      with hmin have "\<forall>u \<in> set (x # xs). f x \<le> f u" by auto
      then show ?thesis using hd_ins True by simp
    next
      case less: False
      have nx: "\<not> (\<forall>u \<in> set (x # xs). f x \<le> f u)" using hin less by auto
      have "List.find (\<lambda>t. \<forall>u \<in> set (x # xs). f t \<le> f u) xs
              = List.find (\<lambda>t. \<forall>u \<in> set xs. f t \<le> f u) xs"
      proof (rule find_cong [OF refl])
        fix t assume "t \<in> set xs"
        show "(\<forall>u \<in> set (x # xs). f t \<le> f u) = (\<forall>u \<in> set xs. f t \<le> f u)"
          using hin less by auto
      qed
      with nx ih hd_ins less show ?thesis by auto
    qed
  qed
qed

lemma sorted_torrents_desc: "sorted_wrt (\<lambda>a b. rank b \<le> rank a) (sorted_torrents ranked)"
proof -
  have "sorted (map (\<lambda>x. - rank x) (sorted_torrents ranked))"
    unfolding sorted_torrents_def by (rule sorted_sort_key)
  then show ?thesis by (simp add: sorted_map)
qed

lemma sorted_torrents_stable:
  "filter (\<lambda>t. rank t = k) (sorted_torrents ranked) = filter (\<lambda>t. rank t = k) ranked"
proof -
  have "filter (\<lambda>y. - rank y = - k) (sort_key (\<lambda>x. - rank x) ranked)
          = filter (\<lambda>y. - rank y = - k) ranked"
    by (rule sort_key_stable)
  then show ?thesis by (simp add: sorted_torrents_def)
qed

lemma sorted_split:
  "sorted_torrents ranked = top_torrents ranked @ drop 5 (sorted_torrents ranked)"
  by (simp add: top_torrents_def)

lemma top_torrents_facts:
  "length (top_torrents ranked) = min 5 (length ranked)
   \<and> sorted_wrt (\<lambda>a b. rank b \<le> rank a) (top_torrents ranked)
   \<and> mset (top_torrents ranked) + mset (drop 5 (sorted_torrents ranked)) = mset ranked
   \<and> (\<forall>a \<in> set (top_torrents ranked). \<forall>b \<in> set (drop 5 (sorted_torrents ranked)).
         rank b \<le> rank a)"
proof -
  have l: "length (top_torrents ranked) = min 5 (length ranked)"
    by (simp add: top_torrents_def sorted_torrents_def min.commute)
  have "sorted_wrt (\<lambda>a b. rank b \<le> rank a)
          (top_torrents ranked @ drop 5 (sorted_torrents ranked))"
    using sorted_torrents_desc [of ranked] sorted_split [of ranked] by simp
  then have s: "sorted_wrt (\<lambda>a b. rank b \<le> rank a) (top_torrents ranked)"
    and d: "\<forall>a \<in> set (top_torrents ranked). \<forall>b \<in> set (drop 5 (sorted_torrents ranked)).
         rank b \<le> rank a"
    by (simp_all add: sorted_wrt_append)
  have "mset (top_torrents ranked @ drop 5 (sorted_torrents ranked)) = mset ranked"
    unfolding sorted_split [symmetric] by (simp add: sorted_torrents_def)
  then have m: "mset (top_torrents ranked) + mset (drop 5 (sorted_torrents ranked)) = mset ranked"
    by simp
  from l s m d show ?thesis by (intro conjI)
qed

lemma best_is_first_maximal:
  assumes "ranked \<noteq> []"
  shows "\<exists>best rest. top_torrents ranked = best # rest
     \<and> List.find (\<lambda>t. \<forall>u \<in> set ranked. rank u \<le> rank t) ranked = Some best"
proof -
  have ne: "sorted_torrents ranked \<noteq> []"
    using assms unfolding sorted_torrents_def by (metis length_0_conv length_sort)
  then obtain best tl where s: "sorted_torrents ranked = best # tl"
    by (cases "sorted_torrents ranked") auto
  then have t: "top_torrents ranked = best # take 4 tl" by (simp add: top_torrents_def)
  have "List.find (\<lambda>t. \<forall>u \<in> set ranked. - rank t \<le> - rank u) ranked
          = Some (hd (sort_key (\<lambda>x. - rank x) ranked))"
    by (rule hd_sort_key_first_min [OF assms])
  then have "List.find (\<lambda>t. \<forall>u \<in> set ranked. rank u \<le> rank t) ranked = Some best"
    using s by (simp add: sorted_torrents_def)
  with t show ?thesis by blast
qed

lemma example_scores:
  assumes "map rank ranked = [10, 30, 20, 5, 25]"
  shows "map rank (top_torrents ranked) = [30, 25, 20, 10, 5]
       \<and> hd (top_torrents ranked) = ranked ! 1"
proof -
  from assms obtain a b c d e where r: "ranked = [a, b, c, d, e]"
    by (auto simp: map_eq_Cons_conv)
  with assms show ?thesis
    by (simp add: top_torrents_def sorted_torrents_def)
qed

lemma rtn_rank_Some:
  "rtn_rank env t h = Some tor \<Longrightarrow>
     infohash tor = h \<and> rtn env t h = Scored (fetch tor) (rank tor) (parsed_title tor)"
  by (auto simp: rtn_rank_def split: rank_result.splits)

lemma accepted_member:
  "tor \<in> set (accepted env cs) \<Longrightarrow>
     \<exists>t h. RtnRank t h \<in> set cs \<and> rtn_rank env t h = Some tor \<and> fetch tor"
  by (induction env cs rule: accepted.induct) (auto split: option.splits if_splits)

lemma available_Some: "available av \<Longrightarrow> \<exists>r. av = Some r \<and> r \<noteq> []"
  by (cases av) (simp_all add: available_def)

lemma check_stream_rank_available:
  assumes "RtnRank t h \<in> set (fst (check_stream env s st))"
  shows "\<exists>r. snd (check_rd_availability env h) = Inr (Some r) \<and> r \<noteq> []"
proof -
  obtain c r where a: "check_rd_availability env (the (infoHash s)) = (c, r)"
    by (cases "check_rd_availability env (the (infoHash s))")
  have c: "c = [InstantAvailability [the (infoHash s)]]"
    using check_rd_calls [of env "the (infoHash s)"] a by simp
  show ?thesis
  proof (cases r)
    case (Inl e)
    with assms a c show ?thesis by (simp add: check_stream_def Let_def split: if_splits)
  next
    case (Inr av)
    show ?thesis
    proof (cases "available av")
      case True
      from assms a c Inr True have "h = the (infoHash s)"
        by (simp add: check_stream_def Let_def split: if_splits)
      with a Inr available_Some [OF True] show ?thesis by auto
    next
      case False
      with assms a c Inr show ?thesis by (simp add: check_stream_def Let_def split: if_splits)
    qed
  qed
qed

lemma rank_loop_rank_available:
  "RtnRank t h \<in> set (fst (rank_loop env ss st)) \<Longrightarrow>
     \<exists>r. snd (check_rd_availability env h) = Inr (Some r) \<and> r \<noteq> []"
proof (induction ss arbitrary: st)
  case Nil
  then show ?case by simp
next
  case (Cons s ss)
  show ?case
  proof (cases rule: check_stream_result [of env s st])
    case (raise c e)
    with Cons.prems check_stream_rank_available [of t h env s st] show ?thesis by simp
  next
    case (break c st1)
    with Cons.prems check_stream_rank_available [of t h env s st] show ?thesis by simp
  next
    case (continue c st1)
    from Cons.prems have "RtnRank t h \<in> set c \<or> RtnRank t h \<in> set (fst (rank_loop env ss st1))"
      unfolding rank_loop_continue [OF continue, of ss] by simp
    then show ?thesis
      using Cons.IH [of st1] check_stream_rank_available [of t h env s st] continue by auto
  qed
qed

lemma add_calls_head:
  "\<exists>c. fst (add_torrent_and_select_files env h n idx mt) = AddMagnet h n # c
       \<and> (\<forall>h' n'. AddMagnet h' n' \<notin> set c)"
  by (auto simp: add_torrent_and_select_files_def select_files_in_rd_def
      split: http.splits if_splits prod.splits sum.splits option.splits)

lemma commit_best_head:
  assumes "top_torrents ranked = best # rest"
  shows "\<exists>c. fst (commit_best env request ranked)
             = AddMagnet (infohash best) (parsed_title best) # c
           \<and> (\<forall>h n. AddMagnet h n \<notin> set c)"
  unfolding commit_best_calls [OF assms] by (rule add_calls_head)

text \<open>
  Claim C1. When the ranking loop returns, its list of ranked torrents is exactly the
  list of accepted answers of the ranking calls it made, in the order of the calls, and
  it ranked available hashes only. Of these, the retained list \<open>top_torrents\<close> has at most
  five entries, is in descending order of rank, and every entry retained ranks at least
  as high as every entry dropped. When there is a candidate at all, the head of the
  retained list is the first candidate, in discovery order, whose rank no other
  candidate exceeds, and the commit stage is called once, for that candidate. For
  candidates ranked 10, 30, 20, 5, 25 the retained ranks are 30, 25, 20, 10, 5 and the
  commit is for the second candidate. The last two parts tie \<open>commit_best\<close> to the whole
  of \<open>process_overseerr_request\<close>, and state that sorting keeps candidates of equal rank
  in discovery order.
\<close>

theorem best_of_batch_selection:
  assumes "snd (rank_loop env ss init_state) = Inr st"
  shows "ranked_torrents st = accepted env (fst (rank_loop env ss init_state))
     \<and> (\<forall>t h. RtnRank t h \<in> set (fst (rank_loop env ss init_state)) \<longrightarrow>
          (\<exists>r. snd (check_rd_availability env h) = Inr (Some r) \<and> r \<noteq> []))
     \<and> length (top_torrents (ranked_torrents st)) = min 5 (length (ranked_torrents st))
     \<and> sorted_wrt (\<lambda>a b. rank b \<le> rank a) (top_torrents (ranked_torrents st))
     \<and> mset (top_torrents (ranked_torrents st))
          + mset (drop 5 (sorted_torrents (ranked_torrents st))) = mset (ranked_torrents st)
     \<and> (\<forall>a \<in> set (top_torrents (ranked_torrents st)).
          \<forall>b \<in> set (drop 5 (sorted_torrents (ranked_torrents st))). rank b \<le> rank a)
     \<and> (ranked_torrents st \<noteq> [] \<longrightarrow>
          (\<exists>best rest c. top_torrents (ranked_torrents st) = best # rest
             \<and> List.find (\<lambda>t. \<forall>u \<in> set (ranked_torrents st). rank u \<le> rank t)
                  (ranked_torrents st) = Some best
             \<and> fst (commit_best env request (ranked_torrents st))
                  = AddMagnet (infohash best) (parsed_title best) # c
             \<and> (\<forall>h n. AddMagnet h n \<notin> set c)))
     \<and> (map rank (ranked_torrents st) = [10, 30, 20, 5, 25] \<longrightarrow>
          map rank (top_torrents (ranked_torrents st)) = [30, 25, 20, 10, 5]
          \<and> (\<exists>c. fst (commit_best env request (ranked_torrents st))
                 = AddMagnet (infohash (ranked_torrents st ! 1))
                     (parsed_title (ranked_torrents st ! 1)) # c))
     \<and> (\<forall>c1 imdb_id. get_imdb_id_from_trakt env (tmdbId request) (mediaType request)
                         = (c1, Inr (Some imdb_id))
            \<and> imdb_id \<noteq> []
            \<and> found_streams (snd (query_torrentio env imdb_id (mediaType request))) = ss
            \<and> ss \<noteq> [] \<longrightarrow>
          process_overseerr_request env request =
            (c1 @ fst (query_torrentio env imdb_id (mediaType request))
                @ fst (rank_loop env ss init_state)
                @ fst (commit_best env request (ranked_torrents st)),
             snd (commit_best env request (ranked_torrents st))))
     \<and> (\<forall>k. filter (\<lambda>t. rank t = k) (sorted_torrents (ranked_torrents st))
              = filter (\<lambda>t. rank t = k) (ranked_torrents st))"
proof -
  let ?R = "ranked_torrents st"
  have s: "\<forall>k. filter (\<lambda>t. rank t = k) (sorted_torrents ?R) = filter (\<lambda>t. rank t = k) ?R"
    by (simp add: sorted_torrents_stable)
  have a: "?R = accepted env (fst (rank_loop env ss init_state))"
    using rank_loop_state [OF assms] by (simp add: init_state_def)
  have b: "\<forall>t h. RtnRank t h \<in> set (fst (rank_loop env ss init_state)) \<longrightarrow>
          (\<exists>r. snd (check_rd_availability env h) = Inr (Some r) \<and> r \<noteq> [])"
    using rank_loop_rank_available by blast
  note f = top_torrents_facts [of ?R]
  have c: "?R \<noteq> [] \<longrightarrow>
          (\<exists>best rest c. top_torrents ?R = best # rest
             \<and> List.find (\<lambda>t. \<forall>u \<in> set ?R. rank u \<le> rank t) ?R = Some best
             \<and> fst (commit_best env request ?R)
                  = AddMagnet (infohash best) (parsed_title best) # c
             \<and> (\<forall>h n. AddMagnet h n \<notin> set c))"
  proof
    assume "?R \<noteq> []"
    from best_is_first_maximal [OF this] obtain best rest where
      t: "top_torrents ?R = best # rest"
      and m: "List.find (\<lambda>t. \<forall>u \<in> set ?R. rank u \<le> rank t) ?R = Some best" by blast
    from commit_best_head [OF t, of env request] obtain c where
      "fst (commit_best env request ?R) = AddMagnet (infohash best) (parsed_title best) # c"
      "\<forall>h n. AddMagnet h n \<notin> set c" by blast
    with t m show "\<exists>best rest c. top_torrents ?R = best # rest
             \<and> List.find (\<lambda>t. \<forall>u \<in> set ?R. rank u \<le> rank t) ?R = Some best
             \<and> fst (commit_best env request ?R)
                  = AddMagnet (infohash best) (parsed_title best) # c
             \<and> (\<forall>h n. AddMagnet h n \<notin> set c)" by blast
  qed
  have d: "map rank ?R = [10, 30, 20, 5, 25] \<longrightarrow>
          map rank (top_torrents ?R) = [30, 25, 20, 10, 5]
          \<and> (\<exists>c. fst (commit_best env request ?R)
                 = AddMagnet (infohash (?R ! 1)) (parsed_title (?R ! 1)) # c)"
  proof
    assume s: "map rank ?R = [10, 30, 20, 5, 25]"
    note e = example_scores [OF s]
    from s have "top_torrents ?R \<noteq> []"
      using e by auto
    then obtain best rest where t: "top_torrents ?R = best # rest"
      by (cases "top_torrents ?R") auto
    with e have "best = ?R ! 1" by simp
    with commit_best_head [OF t, of env request] e
    show "map rank (top_torrents ?R) = [30, 25, 20, 10, 5]
          \<and> (\<exists>c. fst (commit_best env request ?R)
                 = AddMagnet (infohash (?R ! 1)) (parsed_title (?R ! 1)) # c)"
      by blast
  qed
  have p: "\<forall>c1 imdb_id. get_imdb_id_from_trakt env (tmdbId request) (mediaType request)
                         = (c1, Inr (Some imdb_id))
            \<and> imdb_id \<noteq> []
            \<and> found_streams (snd (query_torrentio env imdb_id (mediaType request))) = ss
            \<and> ss \<noteq> [] \<longrightarrow>
          process_overseerr_request env request =
            (c1 @ fst (query_torrentio env imdb_id (mediaType request))
                @ fst (rank_loop env ss init_state)
                @ fst (commit_best env request ?R),
             snd (commit_best env request ?R))"
  proof (intro allI impI)
    fix c1 imdb_id
    assume h: "get_imdb_id_from_trakt env (tmdbId request) (mediaType request)
                         = (c1, Inr (Some imdb_id))
            \<and> imdb_id \<noteq> []
            \<and> found_streams (snd (query_torrentio env imdb_id (mediaType request))) = ss
            \<and> ss \<noteq> []"
    obtain c2 r where q: "query_torrentio env imdb_id (mediaType request) = (c2, r)"
      by (cases "query_torrentio env imdb_id (mediaType request)")
    with h have fs: "found_streams r = ss" by simp
    obtain c3 where l: "rank_loop env (found_streams r) init_state = (c3, Inr st)"
      using assms unfolding fs by (cases "rank_loop env ss init_state") simp
    from h have h1: "get_imdb_id_from_trakt env (tmdbId request) (mediaType request)
                         = (c1, Inr (Some imdb_id))" and h2: "imdb_id \<noteq> []"
      and h4: "found_streams r \<noteq> []" unfolding fs by simp_all
    from poll_after_discovery [OF h1 h2 q h4 l] q l fs
    show "process_overseerr_request env request =
            (c1 @ fst (query_torrentio env imdb_id (mediaType request))
                @ fst (rank_loop env ss init_state)
                @ fst (commit_best env request ?R),
             snd (commit_best env request ?R))"
      by simp
  qed
  from a b f c d p s show ?thesis by (intro conjI) blast+
qed

theorem best_of_batch_selection_witness:
  "snd (rank_loop env_ok five_streams init_state)
     = Inr \<lparr>ranked_torrents = five_ranked,
            checked_hashes = [''h1'', ''h2'', ''h3'', ''h4'', ''h5''],
            garbage_count = 0\<rparr>
   \<and> map rank five_ranked = [10, 30, 20, 5, 25]
   \<and> map rank (top_torrents five_ranked) = [30, 25, 20, 10, 5]
   \<and> fst (commit_best env_ok movie_request five_ranked)
       = [AddMagnet ''h2'' ''B'', TorrentInfo ''T1'']"
proof -
  let ?st = "\<lparr>ranked_torrents = five_ranked,
            checked_hashes = [''h1'', ''h2'', ''h3'', ''h4'', ''h5''],
            garbage_count = 0\<rparr>"
  have r: "snd (rank_loop env_ok five_streams init_state) = Inr ?st"
    by (simp add: model_defs sample_defs)
  have m: "map rank (ranked_torrents ?st) = [10, 30, 20, 5, 25]"
    by (simp add: five_ranked_def)
  note t = best_of_batch_selection [OF r, of movie_request]
  note ex = t [THEN conjunct2, THEN conjunct2, THEN conjunct2, THEN conjunct2, THEN conjunct2,
      THEN conjunct2, THEN conjunct2, THEN conjunct1, rule_format, OF m]
  from ex have top: "map rank (top_torrents five_ranked) = [30, 25, 20, 10, 5]" by simp
  have c: "fst (commit_best env_ok movie_request five_ranked)
       = [AddMagnet ''h2'' ''B'', TorrentInfo ''T1'']"
    by (simp add: model_defs sample_defs)
  from m have m': "map rank five_ranked = [10, 30, 20, 5, 25]" by simp
  from r m' top c show ?thesis by (intro conjI)
qed

section \<open>Eligibility of the committed candidate\<close>

lemma top_subset: "set (top_torrents ranked) \<subseteq> set ranked"
proof -
  have "set (take 5 (sorted_torrents ranked)) \<subseteq> set (sorted_torrents ranked)"
    by (rule set_take_subset)
  then show ?thesis by (simp add: top_torrents_def sorted_torrents_def)
qed

lemma commit_best_source:
  assumes "AddMagnet h n \<in> set (fst (commit_best env request ranked))"
  shows "\<exists>best \<in> set ranked. h = infohash best \<and> n = parsed_title best"
proof (cases "top_torrents ranked")
  case Nil
  with assms show ?thesis by (simp add: commit_best_def)
next
  case (Cons best rest)
  from commit_best_head [OF Cons, of env request] assms
  have "h = infohash best \<and> n = parsed_title best" by auto
  moreover have "best \<in> set ranked" using top_subset [of ranked] Cons by auto
  ultimately show ?thesis by blast
qed

lemma poll_commit_source:
  assumes "AddMagnet h n \<in> set (fst (process_overseerr_request env request))"
  shows "\<exists>ss st. snd (rank_loop env ss init_state) = Inr st
     \<and> set (fst (rank_loop env ss init_state))
          \<subseteq> set (fst (process_overseerr_request env request))
     \<and> AddMagnet h n \<in> set (fst (commit_best env request (ranked_torrents st)))"
proof -
  have t: "AddMagnet h n \<notin> set (fst (get_imdb_id_from_trakt env i mt))" for i mt
    using get_imdb_calls [of env i mt] by auto
  have q: "AddMagnet h n \<notin> set (fst (query_torrentio env i mt))" for i mt
    using query_torrentio_calls [of env i mt] by auto
  have l: "AddMagnet h n \<notin> set (fst (rank_loop env ss st))" for ss st
    using rank_loop_calls [of "AddMagnet h n" env ss st] by auto
  obtain c1 r1 where g: "get_imdb_id_from_trakt env (tmdbId request) (mediaType request) = (c1, r1)"
    by (cases "get_imdb_id_from_trakt env (tmdbId request) (mediaType request)")
  have c1: "AddMagnet h n \<notin> set c1" using t [of "tmdbId request" "mediaType request"] g by simp
  show ?thesis
  proof (cases r1)
    case (Inl e)
    with g c1 assms show ?thesis by (simp add: process_overseerr_request_def)
  next
    case (Inr imdb_id)
    obtain c2 r2 where d: "query_torrentio env (the imdb_id) (mediaType request) = (c2, r2)"
      by (cases "query_torrentio env (the imdb_id) (mediaType request)")
    have c2: "AddMagnet h n \<notin> set c2" using q [of "the imdb_id" "mediaType request"] d by simp
    obtain c3 r3 where lp: "rank_loop env (found_streams r2) init_state = (c3, r3)"
      by (cases "rank_loop env (found_streams r2) init_state")
    have c3: "AddMagnet h n \<notin> set c3" using l [of "found_streams r2" init_state] lp by simp
    show ?thesis
    proof (cases "\<not> truthy imdb_id \<or> found_streams r2 = []")
      case True
      with g Inr d c1 c2 assms show ?thesis
        by (auto simp: process_overseerr_request_def)
    next
      case go: False
      show ?thesis
      proof (cases r3)
        case (Inl e)
        with g Inr d lp c1 c2 c3 assms go show ?thesis
          by (simp add: process_overseerr_request_def)
      next
        case st: (Inr st)
        obtain c4 out where cb: "commit_best env request (ranked_torrents st) = (c4, out)"
          by (cases "commit_best env request (ranked_torrents st)")
        from g Inr d lp st cb go
        have p: "fst (process_overseerr_request env request) = c1 @ c2 @ c3 @ c4"
          by (simp add: process_overseerr_request_def)
        with assms c1 c2 c3 have "AddMagnet h n \<in> set c4" by simp
        with lp st cb p show ?thesis
          by (intro exI [of _ "found_streams r2"] exI [of _ st]) auto
      qed
    qed
  qed
qed

lemma poll_commit_eligible:
  assumes "AddMagnet h n \<in> set (fst (process_overseerr_request env request))"
  shows "(\<exists>r. snd (check_rd_availability env h) = Inr (Some r) \<and> r \<noteq> [])
       \<and> (\<exists>t sc. RtnRank t h \<in> set (fst (process_overseerr_request env request))
                  \<and> rtn env t h = Scored True sc n)"
proof -
  from poll_commit_source [OF assms] obtain ss st where
    r: "snd (rank_loop env ss init_state) = Inr st"
    and sub: "set (fst (rank_loop env ss init_state))
          \<subseteq> set (fst (process_overseerr_request env request))"
    and c: "AddMagnet h n \<in> set (fst (commit_best env request (ranked_torrents st)))"
    by blast
  from commit_best_source [OF c] obtain best where
    b: "best \<in> set (ranked_torrents st)" "h = infohash best" "n = parsed_title best" by blast
  have "ranked_torrents st = accepted env (fst (rank_loop env ss init_state))"
    using rank_loop_state [OF r] by (simp add: init_state_def)
  with b(1) accepted_member [of best env "fst (rank_loop env ss init_state)"]
  obtain t h' where k: "RtnRank t h' \<in> set (fst (rank_loop env ss init_state))"
    "rtn_rank env t h' = Some best" "fetch best" by auto
  from rtn_rank_Some [OF k(2)] b(2,3) k(3)
  have e: "h' = h" "rtn env t h = Scored True (rank best) n" by auto
  from rank_loop_rank_available [OF k(1)] e(1)
  have "\<exists>r. snd (check_rd_availability env h) = Inr (Some r) \<and> r \<noteq> []" by simp
  moreover from k(1) sub e
  have "\<exists>t sc. RtnRank t h \<in> set (fst (process_overseerr_request env request))
                  \<and> rtn env t h = Scored True sc n" by blast
  ultimately show ?thesis by blast
qed

lemma try_stream_commit_eligible:
  assumes "AddMagnet h n \<in> set (fst (try_stream env mt s))"
  shows "(\<exists>r. snd (check_rd_availability env h) = Inr (Some r) \<and> r \<noteq> [])
       \<and> (\<exists>t sc. RtnRank t h \<in> set (fst (try_stream env mt s))
                  \<and> rtn env t h = Scored True sc n)"
proof -
  let ?h = "the (infoHash s)" and ?t = "the (title s)"
  obtain c r where a: "check_rd_availability env ?h = (c, r)"
    by (cases "check_rd_availability env ?h")
  have c: "c = [InstantAvailability [?h]]"
    using check_rd_calls [of env ?h] a by simp
  from assms have g: "truthy (infoHash s) \<and> truthy (title s) \<and> fileIdx s \<noteq> None"
    by (auto simp: try_stream_def split: if_splits)
  show ?thesis
  proof (cases r)
    case (Inl e)
    with assms a c g show ?thesis by (simp add: try_stream_def)
  next
    case (Inr av)
    show ?thesis
    proof (cases "available av")
      case False
      with assms a c g Inr show ?thesis by (simp add: try_stream_def)
    next
      case True
      from available_Some [OF True] a Inr
      have av: "\<exists>r. snd (check_rd_availability env ?h) = Inr (Some r) \<and> r \<noteq> []" by auto
      show ?thesis
      proof (cases "rtn_rank env ?t ?h")
        case None
        with assms a c g Inr True show ?thesis by (simp add: try_stream_def)
      next
        case (Some tor)
        show ?thesis
        proof (cases "fetch tor")
          case False
          with assms a c g Inr True Some show ?thesis by (simp add: try_stream_def)
        next
          case f: True
          let ?add = "add_torrent_and_select_files env (infohash tor) (parsed_title tor)
                        (the (fileIdx s)) mt"
          have calls: "fst (try_stream env mt s) = c @ RtnRank ?t ?h # fst ?add"
            using a g Inr True Some f
            by (simp add: try_stream_def split: prod.splits sum.splits option.splits)
          with assms c have "AddMagnet h n \<in> set (fst ?add)" by simp
          with add_calls [of "AddMagnet h n" env "infohash tor" "parsed_title tor"
              "the (fileIdx s)" mt]
          have e: "h = infohash tor" "n = parsed_title tor" by auto
          from rtn_rank_Some [OF Some] e f
          have k: "h = ?h" "rtn env ?t h = Scored True (rank tor) n" by auto
          have "RtnRank ?t h \<in> set (fst (try_stream env mt s))"
            unfolding calls using k(1) by simp
          with k(2) av k(1) show ?thesis by blast
        qed
      qed
    qed
  qed
qed

lemma webhook_loop_commit_eligible:
  "AddMagnet h n \<in> set (fst (webhook_loop env mt ss)) \<Longrightarrow>
     (\<exists>r. snd (check_rd_availability env h) = Inr (Some r) \<and> r \<noteq> [])
     \<and> (\<exists>t sc. RtnRank t h \<in> set (fst (webhook_loop env mt ss))
                  \<and> rtn env t h = Scored True sc n)"
proof (induction ss)
  case Nil
  then show ?case by simp
next
  case (Cons s ss)
  obtain c r where a: "try_stream env mt s = (c, r)" by (cases "try_stream env mt s")
  note one = try_stream_commit_eligible [of h n env mt s]
  show ?case
  proof (cases "r = Inr None")
    case False
    with a have "fst (webhook_loop env mt (s # ss)) = c"
      by (cases r) (auto split: option.splits)
    with Cons.prems one a show ?thesis by simp
  next
    case True
    with a have u: "fst (webhook_loop env mt (s # ss)) = c @ fst (webhook_loop env mt ss)"
      by (simp split: prod.splits)
    from Cons.prems have "AddMagnet h n \<in> set c \<or> AddMagnet h n \<in> set (fst (webhook_loop env mt ss))"
      unfolding u by simp
    then show ?thesis
    proof
      assume "AddMagnet h n \<in> set c"
      with one a show ?thesis unfolding u by auto
    next
      assume "AddMagnet h n \<in> set (fst (webhook_loop env mt ss))"
      from Cons.IH [OF this] show ?thesis unfolding u by auto
    qed
  qed
qed

lemma push_commit_eligible:
  assumes "AddMagnet h n \<in> set (fst (jellyseer_webhook env payload))"
  shows "(\<exists>r. snd (check_rd_availability env h) = Inr (Some r) \<and> r \<noteq> [])
       \<and> (\<exists>t sc. RtnRank t h \<in> set (fst (jellyseer_webhook env payload))
                  \<and> rtn env t h = Scored True sc n)"
proof (cases "subject payload = Some ''Test Notification'' \<or> validated payload = None")
  case True
  with assms show ?thesis by (auto simp: jellyseer_webhook_def)
next
  case False
  then obtain m where v: "subject payload \<noteq> Some ''Test Notification''"
    "validated payload = Some m" by auto
  obtain c1 r1 where g: "get_imdb_id_from_trakt env (wh_tmdbId m) (wh_media_type m) = (c1, r1)"
    by (cases "get_imdb_id_from_trakt env (wh_tmdbId m) (wh_media_type m)")
  have c1: "AddMagnet h n \<notin> set c1"
    using get_imdb_calls [of env "wh_tmdbId m" "wh_media_type m"] g by auto
  show ?thesis
  proof (cases r1)
    case (Inl e)
    with v g c1 assms show ?thesis by (simp add: jellyseer_webhook_def)
  next
    case (Inr imdb_id)
    obtain c2 r2 where d: "query_torrentio env (the imdb_id) (wh_media_type m) = (c2, r2)"
      by (cases "query_torrentio env (the imdb_id) (wh_media_type m)")
    have c2: "AddMagnet h n \<notin> set c2"
      using query_torrentio_calls [of env "the imdb_id" "wh_media_type m"] d by auto
    show ?thesis
    proof (cases "\<not> truthy imdb_id \<or> found_streams r2 = []")
      case True
      with v g Inr d c1 c2 assms show ?thesis by (auto simp: jellyseer_webhook_def)
    next
      case go: False
      let ?loop = "webhook_loop env (wh_media_type m) (found_streams r2)"
      have p: "fst (jellyseer_webhook env payload) = c1 @ c2 @ fst ?loop"
        using v g Inr d go
        by (simp add: jellyseer_webhook_def split: prod.splits sum.splits)
      with assms c1 c2 have "AddMagnet h n \<in> set (fst ?loop)" by simp
      from webhook_loop_commit_eligible [OF this] show ?thesis unfolding p by auto
    qed
  qed
qed

text \<open>
  Claim C7. On the poll path and on the push path alike, every magnet submission
  (\<open>AddMagnet h n\<close>) in the list of calls is for a hash \<open>h\<close> whose availability check
  yields a non-empty record, and the same list of calls holds a ranking call for \<open>h\<close> that
  the ranking library answers with the accept flag set (and with the parsed title \<open>n\<close>).
\<close>

theorem commit_only_available_accepted:
  "(\<forall>h n. AddMagnet h n \<in> set (fst (process_overseerr_request env request)) \<longrightarrow>
      (\<exists>r. snd (check_rd_availability env h) = Inr (Some r) \<and> r \<noteq> [])
      \<and> (\<exists>t sc. RtnRank t h \<in> set (fst (process_overseerr_request env request))
                 \<and> rtn env t h = Scored True sc n))
   \<and> (\<forall>h n. AddMagnet h n \<in> set (fst (jellyseer_webhook env payload)) \<longrightarrow>
      (\<exists>r. snd (check_rd_availability env h) = Inr (Some r) \<and> r \<noteq> [])
      \<and> (\<exists>t sc. RtnRank t h \<in> set (fst (jellyseer_webhook env payload))
                 \<and> rtn env t h = Scored True sc n))"
  using poll_commit_eligible push_commit_eligible by blast

theorem commit_only_available_accepted_witness:
  "fst (process_overseerr_request env_ok movie_request) =
       [TraktSearch 603 ''movie'', TorrentioQuery ''tt2'' ''movie'',
         InstantAvailability [''h1''], RtnRank ''A'' ''h1'',
         InstantAvailability [''h2''], RtnRank ''B'' ''h2'',
         InstantAvailability [''h3''], RtnRank ''C'' ''h3'',
         InstantAvailability [''h4''], RtnRank ''D'' ''h4'',
         InstantAvailability [''h5''], RtnRank ''E'' ''h5'',
         AddMagnet ''h2'' ''B'', TorrentInfo ''T1'']
   \<and> jellyseer_webhook env_ok movie_payload =
       ([TraktSearch 603 ''movie'', TorrentioQuery ''tt2'' ''movie'',
         InstantAvailability [''h1''], RtnRank ''A'' ''h1'',
         AddMagnet ''h1'' ''A'', TorrentInfo ''T1'', SelectFiles ''T1'' [7]],
        Reply True ''Torrent added'')
   \<and> (\<exists>r. snd (check_rd_availability env_ok ''h2'') = Inr (Some r) \<and> r \<noteq> [])
   \<and> (\<exists>r. snd (check_rd_availability env_ok ''h1'') = Inr (Some r) \<and> r \<noteq> [])"
proof -
  have p: "fst (process_overseerr_request env_ok movie_request) =
       [TraktSearch 603 ''movie'', TorrentioQuery ''tt2'' ''movie'',
         InstantAvailability [''h1''], RtnRank ''A'' ''h1'',
         InstantAvailability [''h2''], RtnRank ''B'' ''h2'',
         InstantAvailability [''h3''], RtnRank ''C'' ''h3'',
         InstantAvailability [''h4''], RtnRank ''D'' ''h4'',
         InstantAvailability [''h5''], RtnRank ''E'' ''h5'',
         AddMagnet ''h2'' ''B'', TorrentInfo ''T1'']"
    by (simp add: model_defs sample_defs)
  have w: "jellyseer_webhook env_ok movie_payload =
       ([TraktSearch 603 ''movie'', TorrentioQuery ''tt2'' ''movie'',
         InstantAvailability [''h1''], RtnRank ''A'' ''h1'',
         AddMagnet ''h1'' ''A'', TorrentInfo ''T1'', SelectFiles ''T1'' [7]],
        Reply True ''Torrent added'')"
    by (simp add: model_defs sample_defs)
  have m1: "AddMagnet ''h2'' ''B'' \<in> set (fst (process_overseerr_request env_ok movie_request))"
    unfolding p by simp
  have m2: "AddMagnet ''h1'' ''A'' \<in> set (fst (jellyseer_webhook env_ok movie_payload))"
    unfolding w by simp
  note t = commit_only_available_accepted [of env_ok movie_request movie_payload]
  from t [THEN conjunct1, rule_format, OF m1]
  have a1: "\<exists>r. snd (check_rd_availability env_ok ''h2'') = Inr (Some r) \<and> r \<noteq> []"
    by (rule conjunct1)
  from t [THEN conjunct2, rule_format, OF m2]
  have a2: "\<exists>r. snd (check_rd_availability env_ok ''h1'') = Inr (Some r) \<and> r \<noteq> []"
    by (rule conjunct1)
  from p w a1 a2 show ?thesis by (intro conjI)
qed

end
